theory Spec2Isabelle
  imports Main "HOL-Library.Word"
begin

section \<open>Machine integers, native handles and faults\<close>

text \<open>
  The backend computes binding locations, descriptor counts and register spaces in
  \<open>uint32_t\<close> and dynamic offsets in \<open>uint64_t\<close>; both are modelled as words, so that
  \<open>+\<close> and \<open>*\<close> wrap as they do in the source. Native Vulkan handles are numbers, with
  \<open>0\<close> the null handle.
\<close>

type_synonym u32 = "32 word"
type_synonym u64 = "64 word"

type_synonym VkDescriptorSetLayout = nat
type_synonym VkDescriptorSet = nat
type_synonym VkDescriptorPool = nat
type_synonym VkPipelineLayout = nat
type_synonym VkBuffer = nat
type_synonym VkBufferView = nat
type_synonym VkImageView = nat
type_synonym VkSampler = nat
type_synonym VkFormat = nat
type_synonym ShaderType = u32
type_synonym ShaderStageFlags = u32

text \<open>
  A run of the backend stops at the first programming-error fault. Faults are: the
  helpers \<open>utils::InvalidEnum\<close>, \<open>utils::NotImplemented\<close> and \<open>utils::NotSupported\<close>
  (Modelled from the spec: an unknown or invalid type is a programming-error fault that
  fails fast), a failed \<open>assert\<close>, an index outside a vector, a null object pointer that is
  dereferenced, and a \<open>checked_cast\<close> to the wrong class. Reports to the diagnostic sink
  (\<open>m_Context.error\<close>) are no faults: the source goes on after them, and the model
  collects the messages.
\<close>

datatype Fault =
    InvalidEnum
  | NotImplemented
  | NotSupported
  | AssertionFailed
  | IndexOutOfRange
  | NullDereference
  | BadCast

definition bindR :: "Fault + 'a \<Rightarrow> ('a \<Rightarrow> Fault + 'b) \<Rightarrow> Fault + 'b" where
  "bindR m f = (case m of Inl e \<Rightarrow> Inl e | Inr x \<Rightarrow> f x)"

section \<open>Data model\<close>

text \<open>
  Structures are records with the source's field names. Where two structures share a
  field name, the later one carries a prefix: \<open>itemSlot\<close> and \<open>itemType\<close> are the
  \<open>slot\<close> and \<open>type\<close> of a \<open>BindingSetItem\<close>, \<open>bindlessVisibility\<close> the
  \<open>visibility\<close> of a \<open>BindlessLayoutDesc\<close>, and so on; \<open>size\<close> is written \<open>size'\<close> and
  the resource type \<open>None\<close> is written \<open>RT_None\<close>.
\<close>

datatype ResourceType =
    RT_None
  | Texture_SRV
  | Texture_UAV
  | TypedBuffer_SRV
  | TypedBuffer_UAV
  | StructuredBuffer_SRV
  | StructuredBuffer_UAV
  | RawBuffer_SRV
  | RawBuffer_UAV
  | ConstantBuffer
  | VolatileConstantBuffer
  | Sampler
  | RayTracingAccelStruct
  | PushConstants
  | Count

text \<open>
  The native descriptor types the source names, and one constructor for every other value
  of the native enumeration (what \<open>convertResourceType\<close> may return besides).
\<close>

datatype DescriptorType =
    eSampler
  | eSampledImage
  | eStorageImage
  | eUniformTexelBuffer
  | eStorageTexelBuffer
  | eUniformBuffer
  | eStorageBuffer
  | eMutableEXT
  | eOtherDescriptorType nat

record VulkanBindingOffsets =
  shaderResource :: u32
  sampler :: u32
  constantBuffer :: u32
  unorderedAccess :: u32

record BindingLayoutItem =
  slot :: u32
  type :: ResourceType
  size' :: u32

record BindingLayoutDesc =
  visibility :: ShaderType
  registerSpace :: u32
  registerSpaceIsDescriptorSet :: bool
  bindings :: "BindingLayoutItem list"
  bindingOffsets :: VulkanBindingOffsets

datatype LayoutType = Immutable | MutableGeneral | MutableCounters | MutableSampler

record BindlessLayoutDesc =
  bindlessVisibility :: ShaderType
  maxCapacity :: u32
  registerSpaces :: "BindingLayoutItem list"
  layoutType :: LayoutType

record VkDescriptorSetLayoutBinding =
  binding :: u32
  descriptorCount :: u32
  descriptorType :: DescriptorType
  stageFlags :: ShaderStageFlags

record VkDescriptorPoolSize =
  poolType :: DescriptorType
  poolDescriptorCount :: u32

record BindingLayout =
  desc :: BindingLayoutDesc
  bindlessDesc :: BindlessLayoutDesc
  isBindless :: bool
  vulkanLayoutBindings :: "VkDescriptorSetLayoutBinding list"
  descriptorSetLayout :: VkDescriptorSetLayout
  descriptorPoolSizeInfo :: "VkDescriptorPoolSize list"

text \<open>
  Resources. A binding refers to a texture, a buffer, a sampler or an acceleration
  structure through a nullable handle. A buffer carries its cache of native buffer views,
  an unordered map from a hash to a view, modelled as an association list.
\<close>

datatype Format = UNKNOWN | KnownFormat nat

type_synonym TextureSubresourceSet = nat
type_synonym TextureDimension = nat

record BufferRange =
  byteOffset :: u64
  byteSize :: u64

record BufferDesc =
  bufferByteSize :: u64
  debugName :: string

record Buffer =
  buffer :: VkBuffer
  bufferDesc :: BufferDesc
  viewCache :: "(u64 \<times> VkBufferView) list"

record Texture =
  textureImage :: nat
  textureFormat :: Format

record SamplerObject =
  samplerHandle :: VkSampler

datatype Resource =
    TextureResource Texture
  | BufferResource Buffer
  | SamplerResource SamplerObject
  | AccelStructResource nat

record BindingSetItem =
  resourceHandle :: "Resource option"
  itemSlot :: u32
  itemType :: ResourceType
  dimension :: TextureDimension
  format :: Format
  subresources :: TextureSubresourceSet
  range :: BufferRange
  arrayElement :: u32

datatype TextureSubresourceViewType = AllAspects | DepthOnly | StencilOnly

datatype ImageUsageFlagBits = eSampled | eStorage

datatype ImageLayout = eUndefined | eGeneral | eShaderReadOnlyOptimal

record FormatInfo =
  hasDepth :: bool
  hasStencil :: bool

text \<open>
  What this translation unit takes from the rest of the backend, as parameters: the
  conversion tables, the resolution of subresource sets and byte ranges, the texture's
  view lookup, the hash combinator, the printing of debug names, and the
  default-constructed descriptions that a
  \<open>BindingLayout\<close> holds for the mode it is not in (no operation below reads them).
\<close>

record Externals =
  convertResourceType :: "ResourceType \<Rightarrow> DescriptorType"
  convertShaderTypeToShaderStageFlagBits :: "ShaderType \<Rightarrow> ShaderStageFlags"
  defaultBindingLayoutDesc :: BindingLayoutDesc
  defaultBindlessLayoutDesc :: BindlessLayoutDesc
  getFormatInfo :: "Format \<Rightarrow> FormatInfo"
  convertFormat :: "Format \<Rightarrow> VkFormat"
  resolveSubresources :: "TextureSubresourceSet \<Rightarrow> Texture \<Rightarrow> bool \<Rightarrow> TextureSubresourceSet"
  resolveRange :: "BufferRange \<Rightarrow> BufferDesc \<Rightarrow> BufferRange"
  getSubresourceView ::
    "Texture \<Rightarrow> TextureSubresourceSet \<Rightarrow> TextureDimension \<Rightarrow> Format \<Rightarrow>
     ImageUsageFlagBits \<Rightarrow> TextureSubresourceViewType \<Rightarrow> VkImageView"
  hash_combine :: "u64 \<Rightarrow> u64 \<Rightarrow> u64"
  debugNameToString :: "string \<Rightarrow> string"

record VulkanContext =
  EXT_mutable_descriptor_type :: bool
  emptyDescriptorSetLayout :: VkDescriptorSetLayout

section \<open>Binding offset policy\<close>

fun getRegisterOffsetForResourceType :: "VulkanBindingOffsets \<Rightarrow> ResourceType \<Rightarrow> Fault + u32" where
  "getRegisterOffsetForResourceType bo Texture_SRV = Inr (shaderResource bo)"
| "getRegisterOffsetForResourceType bo TypedBuffer_SRV = Inr (shaderResource bo)"
| "getRegisterOffsetForResourceType bo StructuredBuffer_SRV = Inr (shaderResource bo)"
| "getRegisterOffsetForResourceType bo RawBuffer_SRV = Inr (shaderResource bo)"
| "getRegisterOffsetForResourceType bo RayTracingAccelStruct = Inr (shaderResource bo)"
| "getRegisterOffsetForResourceType bo Texture_UAV = Inr (unorderedAccess bo)"
| "getRegisterOffsetForResourceType bo TypedBuffer_UAV = Inr (unorderedAccess bo)"
| "getRegisterOffsetForResourceType bo StructuredBuffer_UAV = Inr (unorderedAccess bo)"
| "getRegisterOffsetForResourceType bo RawBuffer_UAV = Inr (unorderedAccess bo)"
| "getRegisterOffsetForResourceType bo ConstantBuffer = Inr (constantBuffer bo)"
| "getRegisterOffsetForResourceType bo VolatileConstantBuffer = Inr (constantBuffer bo)"
| "getRegisterOffsetForResourceType bo PushConstants = Inr (constantBuffer bo)"
| "getRegisterOffsetForResourceType bo Sampler = Inr (sampler bo)"
| "getRegisterOffsetForResourceType bo RT_None = Inl InvalidEnum"
| "getRegisterOffsetForResourceType bo Count = Inl InvalidEnum"

section \<open>Binding layout, fixed mode\<close>

text \<open>
  The constructor's loop over \<open>desc.bindings\<close>; \<open>acc\<close> is \<open>vulkanLayoutBindings\<close> so far.
\<close>

fun fixedLayoutBindings ::
  "Externals \<Rightarrow> BindingLayoutDesc \<Rightarrow> BindingLayoutItem list \<Rightarrow>
   VkDescriptorSetLayoutBinding list \<Rightarrow> Fault + VkDescriptorSetLayoutBinding list" where
  "fixedLayoutBindings ext d [] acc = Inr acc"
| "fixedLayoutBindings ext d (b # bs) acc =
     (if type b = PushConstants then fixedLayoutBindings ext d bs acc
      else
        let descriptorType = convertResourceType ext (type b);
            descriptorCount = size' b
        in bindR (getRegisterOffsetForResourceType (bindingOffsets d) (type b))
             (\<lambda>registerOffset.
                let bindingLocation = registerOffset + slot b
                in fixedLayoutBindings ext d bs
                     (acc @ [\<lparr>binding = bindingLocation,
                              descriptorCount = descriptorCount,
                              descriptorType = descriptorType,
                              stageFlags = convertShaderTypeToShaderStageFlagBits ext (visibility d)\<rparr>])))"

definition BindingLayout_fixed :: "Externals \<Rightarrow> BindingLayoutDesc \<Rightarrow> Fault + BindingLayout" where
  "BindingLayout_fixed ext d =
     bindR (fixedLayoutBindings ext d (bindings d) [])
       (\<lambda>vs. Inr \<lparr>desc = d,
                  bindlessDesc = defaultBindlessLayoutDesc ext,
                  isBindless = False,
                  vulkanLayoutBindings = vs,
                  descriptorSetLayout = 0,
                  descriptorPoolSizeInfo = []\<rparr>)"



section \<open>Binding layout, bindless mode\<close>

text \<open>
  The constructor reports configuration errors to the diagnostic sink and goes on; it
  returns the layout together with the messages reported, in order.
\<close>

fun immutableLayoutBindings ::
  "Externals \<Rightarrow> BindlessLayoutDesc \<Rightarrow> BindingLayoutItem list \<Rightarrow> u32 \<Rightarrow>
   VkDescriptorSetLayoutBinding list \<times> string list \<Rightarrow>
   VkDescriptorSetLayoutBinding list \<times> string list" where
  "immutableLayoutBindings ext bd [] bindingPoint (acc, errs) = (acc, errs)"
| "immutableLayoutBindings ext bd (space # spaces) bindingPoint (acc, errs) =
     (let descriptorType = convertResourceType ext (type space);
          errs1 = (if type space = VolatileConstantBuffer
                   then errs @ [''Volatile constant buffers are not supported in bindless layouts'']
                   else errs)
      in immutableLayoutBindings ext bd spaces (bindingPoint + 1)
           (acc @ [\<lparr>binding = bindingPoint,
                    descriptorCount = maxCapacity bd,
                    descriptorType = descriptorType,
                    stageFlags = convertShaderTypeToShaderStageFlagBits ext (bindlessVisibility bd)\<rparr>],
            errs1))"

definition BindingLayout_bindless ::
  "Externals \<Rightarrow> VulkanContext \<Rightarrow> BindlessLayoutDesc \<Rightarrow> BindingLayout \<times> string list" where
  "BindingLayout_bindless ext ctx bd =
     (let shaderStageFlags = convertShaderTypeToShaderStageFlagBits ext (bindlessVisibility bd);
          bindingPoint = 0;
          arraySize = maxCapacity bd;
          (vs, errs) =
            (if layoutType bd \<noteq> Immutable then
               (let errs1 = (if \<not> EXT_mutable_descriptor_type ctx
                     then [''Mutable descriptor types are not supported by this device. VK_EXT_mutable_descriptor_type extension is required for mutable bindless layouts.'']
                     else []);
                    errs2 = (if length (registerSpaces bd) > 0
                     then errs1 @ [''Mutable descriptor sets cannot specify register spaces'']
                     else errs1)
                in ([\<lparr>binding = bindingPoint,
                       descriptorCount = arraySize,
                       descriptorType = eMutableEXT,
                       stageFlags = shaderStageFlags\<rparr>], errs2))
             else immutableLayoutBindings ext bd (registerSpaces bd) bindingPoint ([], []))
      in (\<lparr>desc = (defaultBindingLayoutDesc ext)\<lparr>visibility := bindlessVisibility bd\<rparr>,
           bindlessDesc = bd,
           isBindless = True,
           vulkanLayoutBindings = vs,
           descriptorSetLayout = 0,
           descriptorPoolSizeInfo = []\<rparr>, errs))"

section \<open>Baking a layout\<close>

datatype VkResult = eSuccess | eErrorCode int

datatype DescriptorBindingFlagBits = ePartiallyBound

text \<open>
  The \<open>pNext\<close> chain of the layout-creation call: nothing, the binding flags, or the
  mutable type list followed by the binding flags.
\<close>

datatype LayoutCreateNext =
    NoNext
  | BindingFlagsCreateInfo "DescriptorBindingFlagBits list"
  | MutableDescriptorTypeCreateInfo "DescriptorType list" "DescriptorBindingFlagBits list"

record VkDescriptorSetLayoutCreateInfo =
  pBindings :: "VkDescriptorSetLayoutBinding list"
  pNext :: LayoutCreateNext

record VkBufferViewCreateInfo =
  viewBuffer :: VkBuffer
  viewOffset :: u64
  viewRange :: u64
  viewFormat :: VkFormat

record VkPushConstantRange =
  rangeOffset :: u32
  rangeSize :: u32
  rangeStageFlags :: ShaderStageFlags

record VkPipelineLayoutCreateInfo =
  pSetLayouts :: "VkDescriptorSetLayout list"
  pPushConstantRanges :: "VkPushConstantRange list"

text \<open>
  The native device, as far as creation calls go: each call returns a result code and the
  object created.
\<close>

record Driver =
  createDescriptorSetLayout :: "VkDescriptorSetLayoutCreateInfo \<Rightarrow> VkResult \<times> VkDescriptorSetLayout"
  createBufferView :: "VkBufferViewCreateInfo \<Rightarrow> VkResult \<times> VkBufferView"
  createNativePipelineLayout :: "VkPipelineLayoutCreateInfo \<Rightarrow> VkResult \<times> VkPipelineLayout"

definition cbvSrvUavTypes :: "DescriptorType list" where
  "cbvSrvUavTypes = [eSampledImage, eStorageImage, eUniformTexelBuffer, eStorageTexelBuffer,
     eUniformBuffer, eStorageBuffer]"

definition counterTypes :: "DescriptorType list" where
  "counterTypes = [eStorageBuffer]"

definition samplerTypes :: "DescriptorType list" where
  "samplerTypes = [eSampler]"

text \<open>
  \<open>bake\<close> returns the result code of the native creation call as soon as it is not
  \<open>eSuccess\<close> (\<open>CHECK_VK_RETURN\<close>), before the pool-size table is computed.
  \<open>poolSizeMap\<close> is an unordered map; it is modelled as an association list with distinct
  keys, in the order of first insertion. The order in which the source iterates over it is
  not specified, and nothing below depends on it.
\<close>

fun countDescriptors ::
  "VkDescriptorSetLayoutBinding list \<Rightarrow> (DescriptorType \<times> u32) list \<Rightarrow>
   (DescriptorType \<times> u32) list" where
  "countDescriptors [] poolSizeMap = poolSizeMap"
| "countDescriptors (layoutBinding # rest) poolSizeMap =
     (let m0 = (if map_of poolSizeMap (descriptorType layoutBinding) = None
                then poolSizeMap @ [(descriptorType layoutBinding, 0)]
                else poolSizeMap)
      in countDescriptors rest
           (map (\<lambda>(k, v). if k = descriptorType layoutBinding
                           then (k, v + descriptorCount layoutBinding) else (k, v)) m0))"

fun computePoolSizeInfo ::
  "(DescriptorType \<times> u32) list \<Rightarrow> VkDescriptorPoolSize list \<Rightarrow> VkDescriptorPoolSize list" where
  "computePoolSizeInfo [] info = info"
| "computePoolSizeInfo (poolSizeIter # rest) info =
     (if snd poolSizeIter > 0
      then computePoolSizeInfo rest
             (info @ [\<lparr>poolType = fst poolSizeIter, poolDescriptorCount = snd poolSizeIter\<rparr>])
      else computePoolSizeInfo rest info)"

definition bake :: "Driver \<Rightarrow> BindingLayout \<Rightarrow> VkResult \<times> BindingLayout" where
  "bake drv lay =
     (let bindFlag = replicate (length (vulkanLayoutBindings lay)) ePartiallyBound;
          pMutableDescriptorTypeLists =
            (if layoutType (bindlessDesc lay) = MutableCounters then counterTypes
             else if layoutType (bindlessDesc lay) = MutableSampler then samplerTypes
             else cbvSrvUavTypes);
          descriptorSetLayoutInfo =
            \<lparr>pBindings = vulkanLayoutBindings lay,
             pNext = (if isBindless lay then
                        (if layoutType (bindlessDesc lay) \<noteq> Immutable
                         then MutableDescriptorTypeCreateInfo pMutableDescriptorTypeLists bindFlag
                         else BindingFlagsCreateInfo bindFlag)
                      else NoNext)\<rparr>;
          (res, handle) = createDescriptorSetLayout drv descriptorSetLayoutInfo;
          lay1 = lay\<lparr>descriptorSetLayout := handle\<rparr>
      in if res \<noteq> eSuccess then (res, lay1)
         else
           let poolSizeMap = countDescriptors (vulkanLayoutBindings lay) []
           in (eSuccess,
               lay1\<lparr>descriptorPoolSizeInfo :=
                 computePoolSizeInfo poolSizeMap (descriptorPoolSizeInfo lay)\<rparr>))"

text \<open>
  The total, in \<open>uint32_t\<close>, of the counts of the schema entries of one native type.
\<close>

definition typeTotal :: "VkDescriptorSetLayoutBinding list \<Rightarrow> DescriptorType \<Rightarrow> u32" where
  "typeTotal vs t = sum_list (map descriptorCount (filter (\<lambda>e. descriptorType e = t) vs))"

text \<open>
  The sum, as a natural number, of the counts of all schema entries sharing one native
  type: the total the pool-size table is specified to hold.
\<close>

definition typeSum :: "VkDescriptorSetLayoutBinding list \<Rightarrow> DescriptorType \<Rightarrow> nat" where
  "typeSum vs t =
     sum_list (map (\<lambda>e. unat (descriptorCount e)) (filter (\<lambda>e. descriptorType e = t) vs))"

text \<open>
  The entries of a pool-size table for one native type.
\<close>

definition poolEntries :: "VkDescriptorPoolSize list \<Rightarrow> DescriptorType \<Rightarrow> VkDescriptorPoolSize list" where
  "poolEntries pool t = filter (\<lambda>p. poolType p = t) pool"

section \<open>Descriptor tables\<close>

record DescriptorTable =
  tableLayout :: BindingLayout
  capacity :: u32
  tableDescriptorPool :: VkDescriptorPool
  tableDescriptorSet :: VkDescriptorSet

record VkDescriptorImageInfo =
  infoSampler :: VkSampler
  infoImageView :: VkImageView
  infoImageLayout :: ImageLayout

record VkDescriptorBufferInfo =
  infoBuffer :: VkBuffer
  infoOffset :: u64
  infoRange :: u64

text \<open>
  A descriptor write. The source stores the image and buffer structures in side vectors
  and gives the write a pointer to its structure; here the write holds the structure it
  points to.
\<close>

record VkWriteDescriptorSet =
  dstSet :: VkDescriptorSet
  dstBinding :: u32
  dstArrayElement :: u32
  writeDescriptorCount :: u32
  writeDescriptorType :: DescriptorType
  pImageInfo :: "VkDescriptorImageInfo option"
  pBufferInfo :: "VkDescriptorBufferInfo option"
  pTexelBufferView :: "VkBufferView option"

datatype NativeCall =
    CreateBufferView VkBufferViewCreateInfo
  | UpdateDescriptorSets "VkWriteDescriptorSet list"

text \<open>
  Modelled from the spec: the accessor \<open>getBindlessDesc\<close> is declared outside this file; a
  layout owns a bindless description only when it is tagged \<open>isBindless\<close>, so the accessor
  gives the bindless description of a bindless layout and a null pointer otherwise.
\<close>

definition getBindlessDesc :: "BindingLayout \<Rightarrow> BindlessLayoutDesc option" where
  "getBindlessDesc lay = (if isBindless lay then Some (bindlessDesc lay) else None)"

text \<open>
  \<open>resizeDescriptorTable\<close> returns the table as it is after the call and the native calls
  it made.
\<close>

definition resizeDescriptorTable ::
  "DescriptorTable \<Rightarrow> u32 \<Rightarrow> bool \<Rightarrow> Fault + DescriptorTable \<times> NativeCall list" where
  "resizeDescriptorTable descriptorTable newSize keepContents =
     (case getBindlessDesc (tableLayout descriptorTable) of
        None \<Rightarrow> Inl NullDereference
      | Some bd \<Rightarrow>
          if newSize \<le> maxCapacity bd then Inr (descriptorTable, [])
          else Inl AssertionFailed)"

definition getTextureViewType :: "Externals \<Rightarrow> Format \<Rightarrow> Format \<Rightarrow> TextureSubresourceViewType" where
  "getTextureViewType ext bindingFormat texFormat =
     (let fmt = (if bindingFormat = UNKNOWN then texFormat else bindingFormat);
          formatInfo = getFormatInfo ext fmt
      in if hasDepth formatInfo then DepthOnly
         else if hasStencil formatInfo then StencilOnly
         else AllAspects)"

text \<open>
  \<open>checked_cast\<close> of the binding's resource handle, followed by the first access through
  the pointer: a null handle is a null dereference, an object of another class a bad cast.
\<close>

definition castTexture :: "Resource option \<Rightarrow> Fault + Texture" where
  "castTexture h = (case h of None \<Rightarrow> Inl NullDereference
     | Some (TextureResource t) \<Rightarrow> Inr t | Some _ \<Rightarrow> Inl BadCast)"

definition castBuffer :: "Resource option \<Rightarrow> Fault + Buffer" where
  "castBuffer h = (case h of None \<Rightarrow> Inl NullDereference
     | Some (BufferResource b) \<Rightarrow> Inr b | Some _ \<Rightarrow> Inl BadCast)"

definition castSampler :: "Resource option \<Rightarrow> Fault + SamplerObject" where
  "castSampler h = (case h of None \<Rightarrow> Inl NullDereference
     | Some (SamplerResource s) \<Rightarrow> Inr s | Some _ \<Rightarrow> Inl BadCast)"

text \<open>
  In the typed-buffer case a failed native view creation trips \<open>ASSERT_VK_OK\<close>, and so
  does a missing format (\<open>assert\<close>); in the buffer case a null native buffer does.
\<close>

text \<open>
  The state that one \<open>writeDescriptorTable\<close> call threads through its lambdas: the writes
  collected so far, the object behind the binding's resource handle (a typed buffer's view
  cache may grow), and the native calls made so far.
\<close>

record WriteState =
  descriptorWriteInfo :: "VkWriteDescriptorSet list"
  object :: "Resource option"
  calls :: "NativeCall list"

definition generateWriteDescriptorData ::
  "DescriptorTable \<Rightarrow> BindingSetItem \<Rightarrow> u32 \<Rightarrow> DescriptorType \<Rightarrow>
   VkDescriptorImageInfo option \<Rightarrow> VkDescriptorBufferInfo option \<Rightarrow> VkBufferView option \<Rightarrow>
   WriteState \<Rightarrow> WriteState" where
  "generateWriteDescriptorData descriptorTable item bindingLocation dtype imageInfo bufferInfo
     bufferView st =
     st\<lparr>descriptorWriteInfo := descriptorWriteInfo st @
          [\<lparr>dstSet = tableDescriptorSet descriptorTable,
            dstBinding = bindingLocation,
            dstArrayElement = itemSlot item,
            writeDescriptorCount = 1,
            writeDescriptorType = dtype,
            pImageInfo = imageInfo,
            pBufferInfo = bufferInfo,
            pTexelBufferView = bufferView\<rparr>]\<rparr>"

definition writeTexture ::
  "Externals \<Rightarrow> DescriptorTable \<Rightarrow> BindingSetItem \<Rightarrow> VkDescriptorSetLayoutBinding \<Rightarrow>
   bool \<Rightarrow> WriteState \<Rightarrow> Fault + WriteState" where
  "writeTexture ext descriptorTable item layoutBinding isUAV st =
     bindR (castTexture (object st)) (\<lambda>texture.
       let subresource = resolveSubresources ext (subresources item) texture isUAV;
           textureViewType = getTextureViewType ext (format item) (textureFormat texture);
           view = getSubresourceView ext texture subresource (dimension item) (format item)
                    (if isUAV then eStorage else eSampled) textureViewType;
           imageInfo = \<lparr>infoSampler = 0, infoImageView = view,
                        infoImageLayout = (if isUAV then eGeneral else eShaderReadOnlyOptimal)\<rparr>
       in Inr (generateWriteDescriptorData descriptorTable item (binding layoutBinding)
                 (convertResourceType ext (itemType item)) (Some imageInfo) None None st))"

definition writeTypedBuffer ::
  "Externals \<Rightarrow> Driver \<Rightarrow> DescriptorTable \<Rightarrow> BindingSetItem \<Rightarrow> VkDescriptorSetLayoutBinding \<Rightarrow>
   WriteState \<Rightarrow> Fault + WriteState" where
  "writeTypedBuffer ext drv descriptorTable item layoutBinding st =
     bindR (castBuffer (object st)) (\<lambda>buf.
       let vkformat = convertFormat ext (format item);
           rng = resolveRange ext (range item) (bufferDesc buf);
           viewInfoHash = hash_combine ext
             (hash_combine ext (hash_combine ext 0 (byteOffset rng)) (byteSize rng))
             (of_nat vkformat)
       in case map_of (viewCache buf) viewInfoHash of
            Some bufferView \<Rightarrow>
              Inr (generateWriteDescriptorData descriptorTable item (binding layoutBinding)
                     (convertResourceType ext (itemType item)) None None (Some bufferView) st)
          | None \<Rightarrow>
              if format item = UNKNOWN then Inl AssertionFailed
              else
                let bufferViewInfo = \<lparr>viewBuffer = buffer buf, viewOffset = byteOffset rng,
                                       viewRange = byteSize rng, viewFormat = vkformat\<rparr>;
                    (res, bufferView) = createBufferView drv bufferViewInfo
                in if res \<noteq> eSuccess then Inl AssertionFailed
                   else Inr (generateWriteDescriptorData descriptorTable item
                          (binding layoutBinding) (convertResourceType ext (itemType item))
                          None None (Some bufferView)
                          (st\<lparr>object := Some (BufferResource
                                 (buf\<lparr>viewCache := viewCache buf @ [(viewInfoHash, bufferView)]\<rparr>)),
                              calls := calls st @ [CreateBufferView bufferViewInfo]\<rparr>)))"

definition writeBuffer ::
  "Externals \<Rightarrow> DescriptorTable \<Rightarrow> BindingSetItem \<Rightarrow> VkDescriptorSetLayoutBinding \<Rightarrow>
   WriteState \<Rightarrow> Fault + WriteState" where
  "writeBuffer ext descriptorTable item layoutBinding st =
     bindR (castBuffer (object st)) (\<lambda>buf.
       let rng = resolveRange ext (range item) (bufferDesc buf);
           bufferInfo = \<lparr>infoBuffer = buffer buf, infoOffset = byteOffset rng,
                         infoRange = byteSize rng\<rparr>
       in if buffer buf = 0 then Inl AssertionFailed
          else Inr (generateWriteDescriptorData descriptorTable item (binding layoutBinding)
                      (convertResourceType ext (itemType item)) None (Some bufferInfo) None st))"

definition writeSampler ::
  "Externals \<Rightarrow> DescriptorTable \<Rightarrow> BindingSetItem \<Rightarrow> VkDescriptorSetLayoutBinding \<Rightarrow>
   WriteState \<Rightarrow> Fault + WriteState" where
  "writeSampler ext descriptorTable item layoutBinding st =
     bindR (castSampler (object st)) (\<lambda>smp.
       let imageInfo = \<lparr>infoSampler = samplerHandle smp, infoImageView = 0,
                        infoImageLayout = eUndefined\<rparr>
       in Inr (generateWriteDescriptorData descriptorTable item (binding layoutBinding)
                 (convertResourceType ext (itemType item)) (Some imageInfo) None None st))"

fun writeDescriptorForBinding ::
  "Externals \<Rightarrow> Driver \<Rightarrow> DescriptorTable \<Rightarrow> BindingSetItem \<Rightarrow> ResourceType \<Rightarrow>
   VkDescriptorSetLayoutBinding \<Rightarrow> WriteState \<Rightarrow> Fault + WriteState" where
  "writeDescriptorForBinding ext drv t item Texture_SRV lb st = writeTexture ext t item lb False st"
| "writeDescriptorForBinding ext drv t item Texture_UAV lb st = writeTexture ext t item lb True st"
| "writeDescriptorForBinding ext drv t item TypedBuffer_SRV lb st = writeTypedBuffer ext drv t item lb st"
| "writeDescriptorForBinding ext drv t item TypedBuffer_UAV lb st = writeTypedBuffer ext drv t item lb st"
| "writeDescriptorForBinding ext drv t item StructuredBuffer_SRV lb st = writeBuffer ext t item lb st"
| "writeDescriptorForBinding ext drv t item StructuredBuffer_UAV lb st = writeBuffer ext t item lb st"
| "writeDescriptorForBinding ext drv t item RawBuffer_SRV lb st = writeBuffer ext t item lb st"
| "writeDescriptorForBinding ext drv t item RawBuffer_UAV lb st = writeBuffer ext t item lb st"
| "writeDescriptorForBinding ext drv t item ConstantBuffer lb st = writeBuffer ext t item lb st"
| "writeDescriptorForBinding ext drv t item VolatileConstantBuffer lb st = writeBuffer ext t item lb st"
| "writeDescriptorForBinding ext drv t item Sampler lb st = writeSampler ext t item lb st"
| "writeDescriptorForBinding ext drv t item RayTracingAccelStruct lb st = Inl NotImplemented"
| "writeDescriptorForBinding ext drv t item PushConstants lb st = Inl NotSupported"
| "writeDescriptorForBinding ext drv t item RT_None lb st = Inl InvalidEnum"
| "writeDescriptorForBinding ext drv t item Count lb st = Inl InvalidEnum"

text \<open>
  The loop of the Immutable branch: \<open>spaces\<close> is what is left of the register spaces and
  \<open>bindingLocation\<close> the loop counter. The loop has no \<open>break\<close>: every register space of
  the binding's type gets a write.
\<close>

fun writeMatchingSpaces ::
  "Externals \<Rightarrow> Driver \<Rightarrow> DescriptorTable \<Rightarrow> BindingSetItem \<Rightarrow> BindingLayoutItem list \<Rightarrow>
   nat \<Rightarrow> WriteState \<Rightarrow> Fault + WriteState" where
  "writeMatchingSpaces ext drv t item [] bindingLocation st = Inr st"
| "writeMatchingSpaces ext drv t item (space # spaces) bindingLocation st =
     (if type space = itemType item then
        (if bindingLocation < length (vulkanLayoutBindings (tableLayout t)) then
           bindR (writeDescriptorForBinding ext drv t item (itemType item)
                    (vulkanLayoutBindings (tableLayout t) ! bindingLocation) st)
             (\<lambda>st1. writeMatchingSpaces ext drv t item spaces (bindingLocation + 1) st1)
         else Inl IndexOutOfRange)
      else writeMatchingSpaces ext drv t item spaces (bindingLocation + 1) st)"

record WriteResult =
  returned :: bool
  nativeCalls :: "NativeCall list"
  objectAfter :: "Resource option"

definition writeDescriptorTable ::
  "Externals \<Rightarrow> Driver \<Rightarrow> DescriptorTable \<Rightarrow> BindingSetItem \<Rightarrow> Fault + WriteResult" where
  "writeDescriptorTable ext drv descriptorTable item =
     (let layout = tableLayout descriptorTable;
          st0 = \<lparr>descriptorWriteInfo = [], object = resourceHandle item, calls = []\<rparr>
      in if itemSlot item \<ge> capacity descriptorTable then
           Inr \<lparr>returned = False, nativeCalls = [], objectAfter = resourceHandle item\<rparr>
         else if itemType item = RT_None then
           Inr \<lparr>returned = True, nativeCalls = [], objectAfter = resourceHandle item\<rparr>
         else
           bindR (if layoutType (bindlessDesc layout) \<noteq> Immutable then
                    (if length (vulkanLayoutBindings layout) > 0 then
                       writeDescriptorForBinding ext drv descriptorTable item (itemType item)
                         (vulkanLayoutBindings layout ! 0) st0
                     else Inl AssertionFailed)
                  else writeMatchingSpaces ext drv descriptorTable item
                         (registerSpaces (bindlessDesc layout)) 0 st0)
             (\<lambda>st. Inr \<lparr>returned = True,
                         nativeCalls = calls st @ [UpdateDescriptorSets (descriptorWriteInfo st)],
                         objectAfter = object st\<rparr>))"

text \<open>The write lists of the native descriptor-update calls among \<open>cs\<close>, in order.\<close>

fun descriptorUpdates :: "NativeCall list \<Rightarrow> VkWriteDescriptorSet list list" where
  "descriptorUpdates [] = []"
| "descriptorUpdates (UpdateDescriptorSets ws # cs) = ws # descriptorUpdates cs"
| "descriptorUpdates (CreateBufferView info # cs) = descriptorUpdates cs"

text \<open>
  As the claim has it: the call issues exactly one native descriptor-update call, and that
  call carries a single write.
\<close>

definition singleElementUpdate :: "NativeCall list \<Rightarrow> bool" where
  "singleElementUpdate cs =
     (case descriptorUpdates cs of [ws] \<Rightarrow> length ws = 1 | _ \<Rightarrow> False)"

text \<open>
  A table over a constructed bindless layout: the layout is tagged bindless and its schema
  is the one the bindless constructor builds from the layout's description.
\<close>

definition overConstructedLayout :: "Externals \<Rightarrow> VulkanContext \<Rightarrow> DescriptorTable \<Rightarrow> bool" where
  "overConstructedLayout ext ctx t =
     (isBindless (tableLayout t) \<and>
      vulkanLayoutBindings (tableLayout t) =
        vulkanLayoutBindings (fst (BindingLayout_bindless ext ctx (bindlessDesc (tableLayout t)))))"

text \<open>
  One step of a write lambda: exactly one write is added, at the schema entry's binding
  location and the binding's slot, and no descriptor-update call is made.
\<close>

definition oneWrite ::
  "Externals \<Rightarrow> DescriptorTable \<Rightarrow> BindingSetItem \<Rightarrow> VkDescriptorSetLayoutBinding \<Rightarrow>
   WriteState \<Rightarrow> WriteState \<Rightarrow> bool" where
  "oneWrite ext t item lb st st' \<longleftrightarrow>
     (\<exists>w. descriptorWriteInfo st' = descriptorWriteInfo st @ [w] \<and>
          dstBinding w = binding lb \<and> dstArrayElement w = itemSlot item \<and>
          writeDescriptorCount w = 1 \<and> dstSet w = tableDescriptorSet t \<and>
          writeDescriptorType w = convertResourceType ext (itemType item)) \<and>
     descriptorUpdates (calls st') = descriptorUpdates (calls st)"

section \<open>Pipeline layout\<close>

text \<open>
  The vectors of the backend are \<open>static_vector\<close>s: \<open>BindingVector\<close>, \<open>BindingLayoutVector\<close>
  and \<open>BindingSetVector\<close> hold at most \<open>c_MaxBindingLayouts\<close> elements, and the vector of
  dynamic offsets at most \<open>c_MaxVolatileConstantBuffers\<close>. The class and the two constants
  are declared outside this file; the constants are parameters here. A vector is a list
  together with its capacity: \<open>push_back\<close> on a full vector and \<open>resize\<close> beyond the
  capacity are faults (the assertions of the container), as an index outside the vector
  is.
\<close>

record Capacities =
  c_MaxBindingLayouts :: nat
  c_MaxVolatileConstantBuffers :: nat

text \<open>
  \<open>createPipelineLayout\<close> fills output vectors that its callers pass in empty; the handles
  of the input vector are not null.
\<close>

text \<open>
  The first loop: the register-space flag of the first layout that is not bindless.
\<close>

fun createDescriptorSetIdxToBindingIdx :: "BindingLayout list \<Rightarrow> bool" where
  "createDescriptorSetIdxToBindingIdx [] = False"
| "createDescriptorSetIdxToBindingIdx (layout # rest) =
     (if \<not> isBindless layout then registerSpaceIsDescriptorSet (desc layout)
      else createDescriptorSetIdxToBindingIdx rest)"

fun numRegularDescriptorSets :: "BindingLayout list \<Rightarrow> u32 \<Rightarrow> u32" where
  "numRegularDescriptorSets [] n = n"
| "numRegularDescriptorSets (layout # rest) n =
     numRegularDescriptorSets rest
       (if \<not> isBindless layout then max n (registerSpace (desc layout) + 1) else n)"

text \<open>
  The placement loop, over the positions \<open>i\<close> and layouts \<open>inBindingLayouts[i]\<close> in order;
  the state is \<open>outBindingLayouts\<close> and \<open>outDescriptorSetIdxToBindingIdx\<close>.
\<close>

fun placeLayouts ::
  "nat \<Rightarrow> (nat \<times> BindingLayout) list \<Rightarrow> BindingLayout option list \<times> u32 list \<Rightarrow>
   Fault + BindingLayout option list \<times> u32 list" where
  "placeLayouts max_elements [] (outLayouts, outIdx) = Inr (outLayouts, outIdx)"
| "placeLayouts max_elements ((i, layout) # rest) (outLayouts, outIdx) =
     (if isBindless layout then
        (if length outLayouts \<ge> max_elements then Inl AssertionFailed
         else if length outIdx \<ge> max_elements then Inl AssertionFailed
         else placeLayouts max_elements rest
                (outLayouts @ [Some layout], outIdx @ [of_nat i]))
      else
        let descriptorSetIdx = unat (registerSpace (desc layout))
        in if descriptorSetIdx \<ge> length outLayouts then Inl IndexOutOfRange
           else if outLayouts ! descriptorSetIdx \<noteq> None then Inl AssertionFailed
           else if descriptorSetIdx \<ge> length outIdx then Inl IndexOutOfRange
           else placeLayouts max_elements rest
                  (outLayouts[descriptorSetIdx := Some layout],
                   outIdx[descriptorSetIdx := of_nat i]))"

text \<open>
  The loop of the legacy mode: every input layout is pushed onto \<open>outBindingLayouts\<close>.
\<close>

fun pushLayouts ::
  "nat \<Rightarrow> BindingLayout list \<Rightarrow> BindingLayout option list \<Rightarrow>
   Fault + BindingLayout option list" where
  "pushLayouts max_elements [] outLayouts = Inr outLayouts"
| "pushLayouts max_elements (layout # rest) outLayouts =
     (if length outLayouts \<ge> max_elements then Inl AssertionFailed
      else pushLayouts max_elements rest (outLayouts @ [Some layout]))"

fun findPushConstants :: "BindingLayoutItem list \<Rightarrow> BindingLayoutItem option" where
  "findPushConstants [] = None"
| "findPushConstants (item # rest) =
     (if type item = PushConstants then Some item else findPushConstants rest)"

text \<open>
  The loop over \<open>outBindingLayouts\<close>; the state is \<open>descriptorSetLayouts\<close>, a vector of
  the same capacity, \<open>pushConstantSize\<close> and \<open>outPushConstantVisibility\<close>.
\<close>

fun collectSetLayouts ::
  "Externals \<Rightarrow> nat \<Rightarrow> VulkanContext \<Rightarrow> BindingLayout option list \<Rightarrow>
   VkDescriptorSetLayout list \<times> u32 \<times> ShaderStageFlags \<Rightarrow>
   Fault + VkDescriptorSetLayout list \<times> u32 \<times> ShaderStageFlags" where
  "collectSetLayouts ext max_elements ctx [] acc = Inr acc"
| "collectSetLayouts ext max_elements ctx (None # rest) (setLayouts, pushConstantSize, vis) =
     (if length setLayouts \<ge> max_elements then Inl AssertionFailed
      else collectSetLayouts ext max_elements ctx rest
             (setLayouts @ [emptyDescriptorSetLayout ctx], pushConstantSize, vis))"
| "collectSetLayouts ext max_elements ctx (Some layout # rest)
       (setLayouts, pushConstantSize, vis) =
     (if length setLayouts \<ge> max_elements then Inl AssertionFailed
      else
        let (pushConstantSize1, vis1) =
              (if \<not> isBindless layout then
                 (case findPushConstants (bindings (desc layout)) of
                    Some item \<Rightarrow>
                      (size' item,
                       convertShaderTypeToShaderStageFlagBits ext (visibility (desc layout)))
                  | None \<Rightarrow> (pushConstantSize, vis))
               else (pushConstantSize, vis))
        in collectSetLayouts ext max_elements ctx rest
             (setLayouts @ [descriptorSetLayout layout], pushConstantSize1, vis1))"

record PipelineLayoutResult =
  res :: VkResult
  outPipelineLayout :: VkPipelineLayout
  outBindingLayouts :: "BindingLayout option list"
  outPushConstantVisibility :: ShaderStageFlags
  outDescriptorSetIdxToBindingIdx :: "u32 list"
  pipelineLayoutInfo :: VkPipelineLayoutCreateInfo

text \<open>
  In indexed mode both output vectors are resized to \<open>numRegularDescriptorSets\<close> elements,
  null handles and sentinels, before the placement loop; the resize is within the capacity
  or a fault.
\<close>

definition createPipelineLayout ::
  "Externals \<Rightarrow> Capacities \<Rightarrow> Driver \<Rightarrow> VulkanContext \<Rightarrow> BindingLayout list \<Rightarrow>
   Fault + PipelineLayoutResult" where
  "createPipelineLayout ext cap drv ctx inBindingLayouts =
     bindR
       (if createDescriptorSetIdxToBindingIdx inBindingLayouts then
          (let n = numRegularDescriptorSets inBindingLayouts 0
           in if unat n \<le> c_MaxBindingLayouts cap then
                placeLayouts (c_MaxBindingLayouts cap) (enumerate 0 inBindingLayouts)
                  (replicate (unat n) None, replicate (unat n) 0xffffffff)
              else Inl AssertionFailed)
        else
          bindR (pushLayouts (c_MaxBindingLayouts cap) inBindingLayouts [])
            (\<lambda>outLayouts. Inr (outLayouts, [])))
       (\<lambda>(outLayouts, outIdx).
          bindR (collectSetLayouts ext (c_MaxBindingLayouts cap) ctx outLayouts ([], 0, 0))
            (\<lambda>(descriptorSetLayouts, pushConstantSize, vis).
               let pushConstantRange =
                     \<lparr>rangeOffset = 0, rangeSize = pushConstantSize, rangeStageFlags = vis\<rparr>;
                   info = \<lparr>pSetLayouts = descriptorSetLayouts,
                           pPushConstantRanges =
                             (if pushConstantSize \<noteq> 0 then [pushConstantRange] else [])\<rparr>;
                   (r, pipelineLayout) = createNativePipelineLayout drv info
               in Inr \<lparr>res = r,
                       outPipelineLayout = pipelineLayout,
                       outBindingLayouts = outLayouts,
                       outPushConstantVisibility = vis,
                       outDescriptorSetIdxToBindingIdx = outIdx,
                       pipelineLayoutInfo = info\<rparr>))"

text \<open>
  Indexed mode, in the words of the specification: among the input layouts, the first one
  that is not bindless has its \<open>registerSpaceIsDescriptorSet\<close> flag set.
\<close>

definition indexedMode :: "BindingLayout list \<Rightarrow> bool" where
  "indexedMode ls =
     (case filter (\<lambda>l. \<not> isBindless l) ls of
        [] \<Rightarrow> False
      | l # rest \<Rightarrow> registerSpaceIsDescriptorSet (desc l))"

text \<open>
  The register spaces, as numbers, of the layouts that are not bindless, in input order.
\<close>

definition regularSpaces :: "BindingLayout list \<Rightarrow> nat list" where
  "regularSpaces ls = map (\<lambda>l. unat (registerSpace (desc l))) (filter (\<lambda>l. \<not> isBindless l) ls)"

text \<open>
  One plus the largest register space among the layouts that are not bindless.
\<close>

definition regularSlotCount :: "BindingLayout list \<Rightarrow> nat" where
  "regularSlotCount ls = 1 + Max (set (regularSpaces ls))"

text \<open>
  What a completed placement loop has done, from the vectors \<open>out\<close>, \<open>idx\<close> it started
  with to the vectors \<open>out'\<close>, \<open>idx'\<close> it ends with: the bindless layouts and their
  positions are appended in order; every other layout sits at its register space, which
  was free, with its position in the index vector; all other slots are as they were.
\<close>

definition placedAll ::
  "(nat \<times> BindingLayout) list \<Rightarrow> BindingLayout option list \<Rightarrow> u32 list \<Rightarrow>
   BindingLayout option list \<Rightarrow> u32 list \<Rightarrow> bool" where
  "placedAll ps out idx out' idx' \<longleftrightarrow>
     length out' = length out + length (filter (\<lambda>p. isBindless (snd p)) ps) \<and>
     length idx' = length out' \<and>
     drop (length out) out' = map (\<lambda>p. Some (snd p)) (filter (\<lambda>p. isBindless (snd p)) ps) \<and>
     drop (length out) idx' = map (\<lambda>p. of_nat (fst p)) (filter (\<lambda>p. isBindless (snd p)) ps) \<and>
     (\<forall>p\<in>set ps. \<not> isBindless (snd p) \<longrightarrow>
        unat (registerSpace (desc (snd p))) < length out \<and>
        out ! unat (registerSpace (desc (snd p))) = None \<and>
        out' ! unat (registerSpace (desc (snd p))) = Some (snd p) \<and>
        idx' ! unat (registerSpace (desc (snd p))) = of_nat (fst p)) \<and>
     (\<forall>k<length out.
        (\<forall>p\<in>set ps. \<not> isBindless (snd p) \<longrightarrow> unat (registerSpace (desc (snd p))) \<noteq> k) \<longrightarrow>
        out' ! k = out ! k \<and> idx' ! k = idx ! k)"

section \<open>Binding descriptor sets\<close>

text \<open>
  A binding set refers to its volatile constant buffers by pointer, and the command list
  keys its volatile-buffer states by the same pointers: a pointer is an address together
  with the buffer it points to. The version is read into a \<open>uint32_t\<close> and the byte size
  is a \<open>uint64_t\<close>, so the offset is computed in 64 bits.
\<close>

type_synonym BufferPtr = "nat \<times> Buffer"

record VolatileBufferState =
  latestVersion :: u32

record BindingSetDesc =
  trackLiveness :: bool

record BindingSet =
  setDesc :: BindingSetDesc
  setDescriptorSet :: VkDescriptorSet
  volatileConstantBuffers :: "BufferPtr list"

text \<open>
  A handle of the binding-set vector points to a binding set, whose \<open>getDesc\<close> is not
  null, or to a descriptor table, whose \<open>getDesc\<close> is null.
\<close>

datatype IBindingSet =
    BindingSetObject BindingSet
  | DescriptorTableObject DescriptorTable

datatype PipelineBindPoint = eGraphics | eCompute | eRayTracingKHR

text \<open>
  One native \<open>bindDescriptorSets\<close> call. Positions and counts are natural numbers: the
  vectors of the backend hold far fewer than \<open>2\<^sup>3\<^sup>2\<close> elements.
\<close>

record BindCall =
  callBindPoint :: PipelineBindPoint
  callLayout :: VkPipelineLayout
  firstSet :: nat
  boundSets :: "VkDescriptorSet list"
  boundDynamicOffsets :: "u32 list"

text \<open>
  The locals of \<open>bindBindingSets\<close> and what it adds to the command buffer: the native
  calls, the errors reported to the diagnostic sink, and the handles kept alive.
  \<open>descriptorSets\<close> is a \<open>BindingVector\<close>, of capacity \<open>c_MaxBindingLayouts\<close>, and
  \<open>dynamicOffsets\<close> a \<open>static_vector\<close> of capacity \<open>c_MaxVolatileConstantBuffers\<close>; both are
  filled over all the binding sets of a run and emptied when the run is flushed.
\<close>

record BindState =
  descriptorSets :: "VkDescriptorSet list"
  nextDescriptorSetToBind :: nat
  dynamicOffsets :: "u32 list"
  bindCalls :: "BindCall list"
  errors :: "string list"
  referencedResources :: "IBindingSet list"

definition unwrittenMessage :: "Externals \<Rightarrow> BufferPtr \<Rightarrow> string" where
  "unwrittenMessage ext cbuf =
     ''Binding volatile constant buffer '' @
     debugNameToString ext (debugName (bufferDesc (snd cbuf))) @
     '' before writing into it is invalid.''"

text \<open>
  The loop over the volatile constant buffers of one binding set; \<open>max_elements\<close> is the
  capacity of \<open>dynamicOffsets\<close>, and a \<open>push_back\<close> on the full vector is a fault.
\<close>

fun appendDynamicOffsets ::
  "Externals \<Rightarrow> nat \<Rightarrow> (nat \<Rightarrow> VolatileBufferState option) \<Rightarrow> BufferPtr list \<Rightarrow>
   u32 list \<times> string list \<Rightarrow> Fault + u32 list \<times> string list" where
  "appendDynamicOffsets ext max_elements states [] acc = Inr acc"
| "appendDynamicOffsets ext max_elements states (cbuf # rest) (offs, errs) =
     (case states (fst cbuf) of
        None \<Rightarrow>
          if length offs \<ge> max_elements then Inl AssertionFailed
          else appendDynamicOffsets ext max_elements states rest
                 (offs @ [0], errs @ [unwrittenMessage ext cbuf])
      | Some found \<Rightarrow>
          let version = latestVersion found;
              offset = (ucast version :: u64) * bufferByteSize (bufferDesc (snd cbuf))
          in if offset < 0xffffffff
             then (if length offs \<ge> max_elements then Inl AssertionFailed
                   else appendDynamicOffsets ext max_elements states rest
                          (offs @ [ucast offset], errs))
             else Inl AssertionFailed)"

text \<open>
  The handle for descriptor-set position \<open>i\<close>: the vector's element when there is no index
  map, the element the map names otherwise, and no handle at a sentinel of the map.
\<close>

definition resolveHandle ::
  "IBindingSet option list \<Rightarrow> u32 list \<Rightarrow> nat \<Rightarrow> Fault + IBindingSet option" where
  "resolveHandle bindingSets descriptorSetIdxToBindingIdx i =
     (if descriptorSetIdxToBindingIdx = [] then
        (if i < length bindingSets then Inr (bindingSets ! i) else Inl IndexOutOfRange)
      else if i < length descriptorSetIdxToBindingIdx then
        (if descriptorSetIdxToBindingIdx ! i \<noteq> 0xffffffff then
           (if unat (descriptorSetIdxToBindingIdx ! i) < length bindingSets
            then Inr (bindingSets ! unat (descriptorSetIdxToBindingIdx ! i))
            else Inl IndexOutOfRange)
         else Inr None)
      else Inl IndexOutOfRange)"

definition flushDescriptorSets ::
  "PipelineBindPoint \<Rightarrow> VkPipelineLayout \<Rightarrow> BindState \<Rightarrow> BindState" where
  "flushDescriptorSets bindPoint pipelineLayout st =
     (if descriptorSets st \<noteq> [] then
        st\<lparr>bindCalls := bindCalls st @
              [\<lparr>callBindPoint = bindPoint, callLayout = pipelineLayout,
                firstSet = nextDescriptorSetToBind st,
                boundSets = descriptorSets st,
                boundDynamicOffsets = dynamicOffsets st\<rparr>],
           descriptorSets := [],
           dynamicOffsets := []\<rparr>
      else st)"

text \<open>
  The body of the loop once the handle is resolved: a hole flushes the pending run; a
  concrete handle is pushed onto \<open>descriptorSets\<close>, a fault when the vector is full, and a
  binding set then adds its dynamic offsets.
\<close>

definition bindHandle ::
  "Externals \<Rightarrow> Capacities \<Rightarrow> (nat \<Rightarrow> VolatileBufferState option) \<Rightarrow> PipelineBindPoint \<Rightarrow>
   VkPipelineLayout \<Rightarrow> nat \<Rightarrow> IBindingSet option \<Rightarrow> BindState \<Rightarrow> Fault + BindState" where
  "bindHandle ext cap states bindPoint pipelineLayout i bindingSetHandle st =
     (case bindingSetHandle of
        None \<Rightarrow>
          Inr ((flushDescriptorSets bindPoint pipelineLayout st)
                 \<lparr>nextDescriptorSetToBind := i + 1\<rparr>)
      | Some (BindingSetObject bindingSet) \<Rightarrow>
          if length (descriptorSets st) \<ge> c_MaxBindingLayouts cap then Inl AssertionFailed
          else
            bindR (appendDynamicOffsets ext (c_MaxVolatileConstantBuffers cap) states
                     (volatileConstantBuffers bindingSet) (dynamicOffsets st, errors st))
              (\<lambda>(offs, errs).
                 Inr (st\<lparr>descriptorSets := descriptorSets st @ [setDescriptorSet bindingSet],
                         dynamicOffsets := offs,
                         errors := errs,
                         referencedResources :=
                           (if trackLiveness (setDesc bindingSet)
                            then referencedResources st @ [BindingSetObject bindingSet]
                            else referencedResources st)\<rparr>))
      | Some (DescriptorTableObject table) \<Rightarrow>
          if length (descriptorSets st) \<ge> c_MaxBindingLayouts cap then Inl AssertionFailed
          else Inr (st\<lparr>descriptorSets := descriptorSets st @ [tableDescriptorSet table]\<rparr>))"

text \<open>
  One iteration of the loop: resolve the handle of position \<open>i\<close>, then flush at a hole or
  collect the handle's descriptor set and dynamic offsets.
\<close>

definition bindStep ::
  "Externals \<Rightarrow> Capacities \<Rightarrow> (nat \<Rightarrow> VolatileBufferState option) \<Rightarrow> PipelineBindPoint \<Rightarrow>
   VkPipelineLayout \<Rightarrow> IBindingSet option list \<Rightarrow> u32 list \<Rightarrow> nat \<Rightarrow> BindState \<Rightarrow>
   Fault + BindState" where
  "bindStep ext cap states bindPoint pipelineLayout bindingSets idxMap i st =
     bindR (resolveHandle bindingSets idxMap i)
       (\<lambda>bindingSetHandle.
          bindHandle ext cap states bindPoint pipelineLayout i bindingSetHandle st)"

fun bindLoop ::
  "Externals \<Rightarrow> Capacities \<Rightarrow> (nat \<Rightarrow> VolatileBufferState option) \<Rightarrow> PipelineBindPoint \<Rightarrow>
   VkPipelineLayout \<Rightarrow> IBindingSet option list \<Rightarrow> u32 list \<Rightarrow> nat list \<Rightarrow> BindState \<Rightarrow>
   Fault + BindState" where
  "bindLoop ext cap states bindPoint pipelineLayout bindingSets idxMap [] st = Inr st"
| "bindLoop ext cap states bindPoint pipelineLayout bindingSets idxMap (i # rest) st =
     bindR (bindStep ext cap states bindPoint pipelineLayout bindingSets idxMap i st)
       (bindLoop ext cap states bindPoint pipelineLayout bindingSets idxMap rest)"

definition numDescriptorSets :: "IBindingSet option list \<Rightarrow> u32 list \<Rightarrow> nat" where
  "numDescriptorSets bindingSets idxMap =
     (if idxMap = [] then length bindingSets else length idxMap)"

definition bindBindingSets ::
  "Externals \<Rightarrow> Capacities \<Rightarrow> (nat \<Rightarrow> VolatileBufferState option) \<Rightarrow> PipelineBindPoint \<Rightarrow>
   VkPipelineLayout \<Rightarrow> IBindingSet option list \<Rightarrow> u32 list \<Rightarrow> Fault + BindState" where
  "bindBindingSets ext cap m_VolatileBufferStates bindPoint pipelineLayout bindingSets idxMap =
     bindR (bindLoop ext cap m_VolatileBufferStates bindPoint pipelineLayout bindingSets idxMap
              [0..<numDescriptorSets bindingSets idxMap]
              \<lparr>descriptorSets = [], nextDescriptorSetToBind = 0, dynamicOffsets = [],
               bindCalls = [], errors = [], referencedResources = []\<rparr>)
       (\<lambda>st. Inr (flushDescriptorSets bindPoint pipelineLayout st))"

text \<open>
  The handles of the descriptor-set positions, in the words of the specification: in
  direct mode (no index map) position \<open>i\<close> holds element \<open>i\<close> of the binding-set vector;
  with an index map there is one position for each entry of the map, a hole where the
  entry is the sentinel \<open>0xFFFFFFFF\<close>, and the element of the vector that the entry names
  otherwise (no handle if it names none). A position is a hole when it has no handle: a
  null element of the vector or a sentinel of the map.
\<close>

definition positionHandles :: "IBindingSet option list \<Rightarrow> u32 list \<Rightarrow> IBindingSet option list" where
  "positionHandles bindingSets idxMap =
     (if idxMap = [] then bindingSets
      else map (\<lambda>e. if e = 0xffffffff then None
                     else if unat e < length bindingSets then bindingSets ! unat e
                     else None) idxMap)"

text \<open>
  A maximal contiguous run of concrete handles: \<open>len\<close> positions from \<open>f\<close> on, all with a
  handle, with a hole or the start of the sequence before and a hole or the end of the
  sequence after.
\<close>

definition maximalRun :: "'a option list \<Rightarrow> nat \<Rightarrow> nat \<Rightarrow> bool" where
  "maximalRun hs f len =
     (0 < len \<and> f + len \<le> length hs \<and>
      (\<forall>k<len. hs ! (f + k) \<noteq> None) \<and>
      (f = 0 \<or> hs ! (f - 1) = None) \<and>
      (f + len = length hs \<or> hs ! (f + len) = None))"

definition nativeSetOf :: "IBindingSet option \<Rightarrow> VkDescriptorSet list" where
  "nativeSetOf h = (case h of None \<Rightarrow> []
     | Some (BindingSetObject bindingSet) \<Rightarrow> [setDescriptorSet bindingSet]
     | Some (DescriptorTableObject table) \<Rightarrow> [tableDescriptorSet table])"

definition volatileBuffersOf :: "IBindingSet option \<Rightarrow> BufferPtr list" where
  "volatileBuffersOf h = (case h of Some (BindingSetObject bindingSet) \<Rightarrow>
       volatileConstantBuffers bindingSet | _ \<Rightarrow> [])"

text \<open>
  The dynamic offset the claim gives a volatile constant buffer: 0 without a recorded
  write, the latest version times the byte size otherwise.
\<close>

definition claimedOffset ::
  "(nat \<Rightarrow> VolatileBufferState option) \<Rightarrow> BufferPtr \<Rightarrow> u32 \<Rightarrow> bool" where
  "claimedOffset states cbuf off =
     (case states (fst cbuf) of
        None \<Rightarrow> off = 0
      | Some found \<Rightarrow>
          (ucast off :: u64) =
            ucast (latestVersion found) * bufferByteSize (bufferDesc (snd cbuf)))"

definition unwritten :: "(nat \<Rightarrow> VolatileBufferState option) \<Rightarrow> BufferPtr \<Rightarrow> bool" where
  "unwritten states cbuf = (states (fst cbuf) = None)"

text \<open>
  The positions \<open>a\<close> up to, not including, \<open>b\<close> of a sequence.
\<close>

definition segment :: "'a list \<Rightarrow> nat \<Rightarrow> nat \<Rightarrow> 'a list" where
  "segment hs a b = take (b - a) (drop a hs)"

text \<open>
  A native bind call that stands for a maximal run: it starts at the run's first position,
  carries the descriptor sets of the run's handles in order, and carries the dynamic
  offsets of their volatile constant buffers, in the order of the handles and, within a
  binding set, of the buffers.
\<close>

definition callOfRun ::
  "(nat \<Rightarrow> VolatileBufferState option) \<Rightarrow> IBindingSet option list \<Rightarrow> BindCall \<Rightarrow> bool" where
  "callOfRun states hs c =
     (maximalRun hs (firstSet c) (length (boundSets c)) \<and>
      boundSets c =
        concat (map nativeSetOf (segment hs (firstSet c) (firstSet c + length (boundSets c)))) \<and>
      list_all2 (claimedOffset states)
        (concat (map volatileBuffersOf
           (segment hs (firstSet c) (firstSet c + length (boundSets c)))))
        (boundDynamicOffsets c))"

text \<open>
  The loop invariant of \<open>bindBindingSets\<close> before position \<open>i\<close>: the pending descriptor
  sets and offsets are those of the handles since \<open>nextDescriptorSetToBind\<close>, none of them
  a hole, with a hole (or nothing) just before; every call made so far stands for a
  maximal run that ended before; the calls are in increasing order; every handle before
  \<open>nextDescriptorSetToBind\<close> is in a call; the errors are those of the unwritten buffers
  seen so far.
\<close>

definition bindInv ::
  "Externals \<Rightarrow> (nat \<Rightarrow> VolatileBufferState option) \<Rightarrow> IBindingSet option list \<Rightarrow> nat \<Rightarrow>
   BindState \<Rightarrow> bool" where
  "bindInv ext states hs i st =
     (nextDescriptorSetToBind st \<le> i \<and> i \<le> length hs \<and>
      None \<notin> set (segment hs (nextDescriptorSetToBind st) i) \<and>
      descriptorSets st = concat (map nativeSetOf (segment hs (nextDescriptorSetToBind st) i)) \<and>
      list_all2 (claimedOffset states)
        (concat (map volatileBuffersOf (segment hs (nextDescriptorSetToBind st) i)))
        (dynamicOffsets st) \<and>
      (nextDescriptorSetToBind st = 0 \<or> hs ! (nextDescriptorSetToBind st - 1) = None) \<and>
      (\<forall>c\<in>set (bindCalls st).
         callOfRun states hs c \<and>
         firstSet c + length (boundSets c) < nextDescriptorSetToBind st) \<and>
      sorted_wrt (\<lambda>a b. firstSet a < firstSet b) (bindCalls st) \<and>
      (\<forall>j<nextDescriptorSetToBind st. hs ! j \<noteq> None \<longrightarrow>
         (\<exists>c\<in>set (bindCalls st). firstSet c \<le> j \<and> j < firstSet c + length (boundSets c))) \<and>
      errors st =
        map (unwrittenMessage ext)
          (filter (unwritten states) (concat (map volatileBuffersOf (take i hs)))))"

text \<open>
  When \<open>bindBindingSets\<close> completes: the offset of every written volatile constant buffer
  passes the source's assertion, every entry of the index map is the sentinel or an
  index into the binding-set vector, and the positions and the volatile constant buffers
  of all handles are no more than the vectors of descriptor sets and of dynamic offsets
  hold.
\<close>

definition offsetFits :: "(nat \<Rightarrow> VolatileBufferState option) \<Rightarrow> BufferPtr \<Rightarrow> bool" where
  "offsetFits states cbuf =
     (case states (fst cbuf) of
        None \<Rightarrow> True
      | Some found \<Rightarrow>
          (ucast (latestVersion found) :: u64) * bufferByteSize (bufferDesc (snd cbuf))
            < 0xffffffff)"

definition indexMapInRange :: "IBindingSet option list \<Rightarrow> u32 list \<Rightarrow> bool" where
  "indexMapInRange bindingSets idxMap =
     (\<forall>e\<in>set idxMap. e = 0xffffffff \<or> unat e < length bindingSets)"

definition withinCapacity :: "Capacities \<Rightarrow> IBindingSet option list \<Rightarrow> bool" where
  "withinCapacity cap hs =
     (length hs \<le> c_MaxBindingLayouts cap \<and>
      length (concat (map volatileBuffersOf hs)) \<le> c_MaxVolatileConstantBuffers cap)"

section \<open>Example inputs\<close>

definition exampleOffsets :: VulkanBindingOffsets where
  "exampleOffsets = \<lparr>shaderResource = 0, sampler = 128, constantBuffer = 256,
     unorderedAccess = 384\<rparr>"

definition exampleExternals :: Externals where
  "exampleExternals =
     \<lparr>convertResourceType = (\<lambda>t. if t = Sampler then eSampler else
          if t = Texture_SRV then eSampledImage else eStorageBuffer),
      convertShaderTypeToShaderStageFlagBits = (\<lambda>v. v),
      defaultBindingLayoutDesc = \<lparr>visibility = 0, registerSpace = 0,
        registerSpaceIsDescriptorSet = False, bindings = [], bindingOffsets = exampleOffsets\<rparr>,
      defaultBindlessLayoutDesc = \<lparr>bindlessVisibility = 0, maxCapacity = 0,
        registerSpaces = [], layoutType = Immutable\<rparr>,
      getFormatInfo = (\<lambda>f. \<lparr>hasDepth = False, hasStencil = False\<rparr>),
      convertFormat = (\<lambda>f. case f of UNKNOWN \<Rightarrow> 0 | KnownFormat n \<Rightarrow> n),
      resolveSubresources = (\<lambda>s t isUAV. s),
      resolveRange = (\<lambda>r d. r),
      getSubresourceView = (\<lambda>t s d f u v. textureImage t + 1000),
      hash_combine = (\<lambda>seed v. seed * 31 + v),
      debugNameToString = (\<lambda>n. n)\<rparr>"

definition exampleFixedDesc :: BindingLayoutDesc where
  "exampleFixedDesc =
     \<lparr>visibility = 1, registerSpace = 0, registerSpaceIsDescriptorSet = False,
      bindings = [\<lparr>slot = 3, type = Texture_UAV, size' = 1\<rparr>,
                  \<lparr>slot = 0, type = PushConstants, size' = 16\<rparr>,
                  \<lparr>slot = 2, type = Sampler, size' = 4\<rparr>],
      bindingOffsets = exampleOffsets\<rparr>"

definition exampleImmutableDesc :: BindlessLayoutDesc where
  "exampleImmutableDesc =
     \<lparr>bindlessVisibility = 1, maxCapacity = 1024,
      registerSpaces = [\<lparr>slot = 0, type = Texture_SRV, size' = 1\<rparr>,
                        \<lparr>slot = 0, type = VolatileConstantBuffer, size' = 1\<rparr>,
                        \<lparr>slot = 0, type = Sampler, size' = 1\<rparr>],
      layoutType = Immutable\<rparr>"

definition exampleMutableDesc :: BindlessLayoutDesc where
  "exampleMutableDesc =
     \<lparr>bindlessVisibility = 1, maxCapacity = 512,
      registerSpaces = [\<lparr>slot = 0, type = Texture_SRV, size' = 1\<rparr>],
      layoutType = MutableGeneral\<rparr>"

definition exampleContext :: VulkanContext where
  "exampleContext = \<lparr>EXT_mutable_descriptor_type = True, emptyDescriptorSetLayout = 99\<rparr>"

definition exampleDriver :: Driver where
  "exampleDriver = \<lparr>createDescriptorSetLayout = (\<lambda>info. (eSuccess, 7)),
     createBufferView = (\<lambda>info. (eSuccess, 8)),
     createNativePipelineLayout = (\<lambda>info. (eSuccess, 9))\<rparr>"

definition examplePoolLayout :: BindingLayout where
  "examplePoolLayout =
     \<lparr>desc = exampleFixedDesc,
      bindlessDesc = defaultBindlessLayoutDesc exampleExternals,
      isBindless = False,
      vulkanLayoutBindings =
        [\<lparr>binding = 0, descriptorCount = 2, descriptorType = eStorageBuffer, stageFlags = 1\<rparr>,
         \<lparr>binding = 1, descriptorCount = 0, descriptorType = eSampler, stageFlags = 1\<rparr>,
         \<lparr>binding = 2, descriptorCount = 3, descriptorType = eStorageBuffer, stageFlags = 1\<rparr>],
      descriptorSetLayout = 0,
      descriptorPoolSizeInfo = []\<rparr>"

text \<open>
  A bindless layout with two register spaces of sampled images, of \<open>2\<^sup>3\<^sup>1\<close> descriptors each.
\<close>

definition exampleLargeDesc :: BindlessLayoutDesc where
  "exampleLargeDesc =
     \<lparr>bindlessVisibility = 1, maxCapacity = 0x80000000,
      registerSpaces = [\<lparr>slot = 0, type = Texture_SRV, size' = 1\<rparr>,
                        \<lparr>slot = 0, type = Sampler, size' = 1\<rparr>,
                        \<lparr>slot = 0, type = Texture_SRV, size' = 1\<rparr>],
      layoutType = Immutable\<rparr>"

definition exampleLargeLayout :: BindingLayout where
  "exampleLargeLayout =
     fst (BindingLayout_bindless exampleExternals exampleContext exampleLargeDesc)"

definition exampleTableDesc :: BindlessLayoutDesc where
  "exampleTableDesc =
     \<lparr>bindlessVisibility = 1, maxCapacity = 1024,
      registerSpaces = [\<lparr>slot = 0, type = Texture_SRV, size' = 1\<rparr>,
                        \<lparr>slot = 0, type = Sampler, size' = 1\<rparr>],
      layoutType = Immutable\<rparr>"

definition exampleTable :: DescriptorTable where
  "exampleTable =
     \<lparr>tableLayout = fst (BindingLayout_bindless exampleExternals exampleContext exampleTableDesc),
      capacity = 1024, tableDescriptorPool = 5, tableDescriptorSet = 6\<rparr>"

definition exampleSamplerItem :: BindingSetItem where
  "exampleSamplerItem =
     \<lparr>resourceHandle = Some (SamplerResource \<lparr>samplerHandle = 42\<rparr>),
      itemSlot = 3, itemType = Sampler, dimension = 0, format = UNKNOWN, subresources = 0,
      range = \<lparr>byteOffset = 0, byteSize = 0\<rparr>, arrayElement = 0\<rparr>"

definition exampleRawBufferItem :: BindingSetItem where
  "exampleRawBufferItem =
     \<lparr>resourceHandle = Some (BufferResource
        \<lparr>buffer = 11, bufferDesc = \<lparr>bufferByteSize = 256, debugName = ''raw''\<rparr>, viewCache = []\<rparr>),
      itemSlot = 3, itemType = RawBuffer_SRV, dimension = 0, format = UNKNOWN, subresources = 0,
      range = \<lparr>byteOffset = 0, byteSize = 256\<rparr>, arrayElement = 0\<rparr>"

definition exampleLayoutA :: BindingLayout where
  "exampleLayoutA =
     \<lparr>desc = \<lparr>visibility = 1, registerSpace = 0, registerSpaceIsDescriptorSet = True,
         bindings = [\<lparr>slot = 0, type = Texture_SRV, size' = 1\<rparr>],
         bindingOffsets = exampleOffsets\<rparr>,
      bindlessDesc = defaultBindlessLayoutDesc exampleExternals,
      isBindless = False,
      vulkanLayoutBindings =
        [\<lparr>binding = 0, descriptorCount = 1, descriptorType = eSampledImage, stageFlags = 1\<rparr>],
      descriptorSetLayout = 21,
      descriptorPoolSizeInfo = [\<lparr>poolType = eSampledImage, poolDescriptorCount = 1\<rparr>]\<rparr>"

definition exampleLayoutB :: BindingLayout where
  "exampleLayoutB =
     \<lparr>desc = \<lparr>visibility = 1, registerSpace = 2, registerSpaceIsDescriptorSet = True,
         bindings = [\<lparr>slot = 1, type = Sampler, size' = 1\<rparr>],
         bindingOffsets = exampleOffsets\<rparr>,
      bindlessDesc = defaultBindlessLayoutDesc exampleExternals,
      isBindless = False,
      vulkanLayoutBindings =
        [\<lparr>binding = 129, descriptorCount = 1, descriptorType = eSampler, stageFlags = 1\<rparr>],
      descriptorSetLayout = 22,
      descriptorPoolSizeInfo = [\<lparr>poolType = eSampler, poolDescriptorCount = 1\<rparr>]\<rparr>"

text \<open>
  A baked bindless layout, and the capacities of the backend's vectors.
\<close>

definition exampleLayoutT :: BindingLayout where
  "exampleLayoutT =
     snd (bake exampleDriver
       (fst (BindingLayout_bindless exampleExternals exampleContext exampleTableDesc)))"

definition exampleCapacities :: Capacities where
  "exampleCapacities = \<lparr>c_MaxBindingLayouts = 8, c_MaxVolatileConstantBuffers = 32\<rparr>"

definition exampleSetS0 :: IBindingSet where
  "exampleSetS0 = BindingSetObject
     \<lparr>setDesc = \<lparr>trackLiveness = True\<rparr>, setDescriptorSet = 100, volatileConstantBuffers = []\<rparr>"

definition exampleSetS2 :: IBindingSet where
  "exampleSetS2 = BindingSetObject
     \<lparr>setDesc = \<lparr>trackLiveness = False\<rparr>, setDescriptorSet = 102, volatileConstantBuffers = []\<rparr>"

definition exampleVolatileA :: BufferPtr where
  "exampleVolatileA =
     (1, \<lparr>buffer = 31, bufferDesc = \<lparr>bufferByteSize = 256, debugName = ''A''\<rparr>, viewCache = []\<rparr>)"

definition exampleVolatileB :: BufferPtr where
  "exampleVolatileB =
     (2, \<lparr>buffer = 32, bufferDesc = \<lparr>bufferByteSize = 64, debugName = ''B''\<rparr>, viewCache = []\<rparr>)"

definition exampleSetS1 :: IBindingSet where
  "exampleSetS1 = BindingSetObject
     \<lparr>setDesc = \<lparr>trackLiveness = False\<rparr>, setDescriptorSet = 101,
      volatileConstantBuffers = [exampleVolatileA, exampleVolatileB]\<rparr>"

definition exampleVolatileStates :: "nat \<Rightarrow> VolatileBufferState option" where
  "exampleVolatileStates p = (if p = 1 then Some \<lparr>latestVersion = 3\<rparr> else None)"

section \<open>Properties of the fixed-mode constructor\<close>






section \<open>Properties of the bindless constructor\<close>

lemma immutableLayoutBindings_eq:
  "immutableLayoutBindings ext bd spaces bp (acc, errs) =
     (acc @ map (\<lambda>(i, space). \<lparr>binding = bp + of_nat i, descriptorCount = maxCapacity bd,
                    descriptorType = convertResourceType ext (type space),
                    stageFlags = convertShaderTypeToShaderStageFlagBits ext (bindlessVisibility bd)\<rparr>)
              (enumerate 0 spaces),
      errs @ map (\<lambda>space. ''Volatile constant buffers are not supported in bindless layouts'')
               (filter (\<lambda>space. type space = VolatileConstantBuffer) spaces))"
proof (induction spaces arbitrary: bp acc errs)
  case Nil
  then show ?case by simp
next
  case (Cons s spaces)
  show ?case
    by (simp add: Cons.IH enumerate_Suc_eq Let_def split_def o_def add.assoc)
qed

lemma bindless_immutable:
  assumes "layoutType bd = Immutable"
  shows "vulkanLayoutBindings (fst (BindingLayout_bindless ext ctx bd)) =
     map (\<lambda>(i, space). \<lparr>binding = of_nat i, descriptorCount = maxCapacity bd,
                    descriptorType = convertResourceType ext (type space),
                    stageFlags = convertShaderTypeToShaderStageFlagBits ext (bindlessVisibility bd)\<rparr>)
              (enumerate 0 (registerSpaces bd))"
   and "snd (BindingLayout_bindless ext ctx bd) = map (\<lambda>space. ''Volatile constant buffers are not supported in bindless layouts'')
               (filter (\<lambda>space. type space = VolatileConstantBuffer) (registerSpaces bd))"
  using assms by (simp_all add: BindingLayout_bindless_def Let_def immutableLayoutBindings_eq)

text \<open>
  C6. For every Immutable bindless layout description with N register spaces, the
  constructor produces exactly N schema entries, in input order, at binding locations
  0..N-1, each with count maxCapacity (and the native type of its register space); a
  register space of type VolatileConstantBuffer is rejected as an invalid configuration:
  the error is reported to the diagnostic sink exactly when such a space is present.
\<close>

theorem immutable_bindless_schema:
  assumes "layoutType bd = Immutable"
  shows "length (vulkanLayoutBindings (fst (BindingLayout_bindless ext ctx bd))) =
           length (registerSpaces bd) \<and>
         map binding (vulkanLayoutBindings (fst (BindingLayout_bindless ext ctx bd))) =
           map of_nat [0..<length (registerSpaces bd)] \<and>
         map descriptorType (vulkanLayoutBindings (fst (BindingLayout_bindless ext ctx bd))) =
           map (\<lambda>space. convertResourceType ext (type space)) (registerSpaces bd) \<and>
         (\<forall>e\<in>set (vulkanLayoutBindings (fst (BindingLayout_bindless ext ctx bd))).
            descriptorCount e = maxCapacity bd) \<and>
         (''Volatile constant buffers are not supported in bindless layouts''
            \<in> set (snd (BindingLayout_bindless ext ctx bd)) \<longleftrightarrow>
          (\<exists>space\<in>set (registerSpaces bd). type space = VolatileConstantBuffer))"
proof -
  have fsts: "map (\<lambda>x. of_nat (fst x)) (enumerate 0 (registerSpaces bd)) =
      (map of_nat [0..<length (registerSpaces bd)] :: u32 list)"
    using map_map [of "of_nat :: nat \<Rightarrow> u32" fst "enumerate 0 (registerSpaces bd)"]
    by (simp add: o_def)
  have snds: "map (\<lambda>x. convertResourceType ext (type (snd x))) (enumerate 0 (registerSpaces bd)) =
      map (\<lambda>space. convertResourceType ext (type space)) (registerSpaces bd)"
    using map_map [of "\<lambda>space. convertResourceType ext (type space)" snd
      "enumerate 0 (registerSpaces bd)"]
    by (simp add: o_def)
  have "map binding (vulkanLayoutBindings (fst (BindingLayout_bindless ext ctx bd))) =
      map of_nat [0..<length (registerSpaces bd)]"
    by (simp add: bindless_immutable(1) [OF assms] o_def split_def fsts)
  moreover have "map descriptorType (vulkanLayoutBindings (fst (BindingLayout_bindless ext ctx bd))) =
      map (\<lambda>space. convertResourceType ext (type space)) (registerSpaces bd)"
    by (simp add: bindless_immutable(1) [OF assms] o_def split_def snds)
  moreover have "length (vulkanLayoutBindings (fst (BindingLayout_bindless ext ctx bd))) =
      length (registerSpaces bd)"
    by (simp add: bindless_immutable(1) [OF assms])
  moreover have "\<forall>e\<in>set (vulkanLayoutBindings (fst (BindingLayout_bindless ext ctx bd))).
      descriptorCount e = maxCapacity bd"
    by (auto simp: bindless_immutable(1) [OF assms])
  moreover have "''Volatile constant buffers are not supported in bindless layouts''
            \<in> set (snd (BindingLayout_bindless ext ctx bd)) \<longleftrightarrow>
          (\<exists>space\<in>set (registerSpaces bd). type space = VolatileConstantBuffer)"
    by (auto simp: bindless_immutable(2) [OF assms])
  ultimately show ?thesis
    by blast
qed

theorem immutable_bindless_schema_witness:
  "layoutType exampleImmutableDesc = Immutable \<and>
   map binding (vulkanLayoutBindings
     (fst (BindingLayout_bindless exampleExternals exampleContext exampleImmutableDesc))) = [0, 1, 2] \<and>
   map descriptorCount (vulkanLayoutBindings
     (fst (BindingLayout_bindless exampleExternals exampleContext exampleImmutableDesc))) =
     [1024, 1024, 1024] \<and>
   snd (BindingLayout_bindless exampleExternals exampleContext exampleImmutableDesc) =
     [''Volatile constant buffers are not supported in bindless layouts'']"
proof -
  have h: "layoutType exampleImmutableDesc = Immutable"
    by (simp add: exampleImmutableDesc_def)
  have ev: "BindingLayout_bindless exampleExternals exampleContext exampleImmutableDesc =
    (\<lparr>desc = \<lparr>visibility = 1, registerSpace = 0, registerSpaceIsDescriptorSet = False,
         bindings = [], bindingOffsets = exampleOffsets\<rparr>,
       bindlessDesc = exampleImmutableDesc, isBindless = True,
       vulkanLayoutBindings =
         [\<lparr>binding = 0, descriptorCount = 1024, descriptorType = eSampledImage, stageFlags = 1\<rparr>,
          \<lparr>binding = 1, descriptorCount = 1024, descriptorType = eStorageBuffer, stageFlags = 1\<rparr>,
          \<lparr>binding = 2, descriptorCount = 1024, descriptorType = eSampler, stageFlags = 1\<rparr>],
       descriptorSetLayout = 0, descriptorPoolSizeInfo = []\<rparr>,
     [''Volatile constant buffers are not supported in bindless layouts''])"
    by (simp add: BindingLayout_bindless_def exampleImmutableDesc_def exampleExternals_def Let_def)
  from immutable_bindless_schema [OF h, of exampleExternals exampleContext] h show ?thesis
    by (simp add: ev)
qed

text \<open>
  C7. For every Mutable (non-Immutable) bindless layout description, the constructor
  produces exactly one schema entry, at binding location 0, with count maxCapacity and the
  mutable descriptor type; a non-empty register-space list together with a mutable layout
  type is rejected as an invalid configuration: the error is reported to the diagnostic
  sink exactly when the list is not empty.
\<close>

theorem mutable_bindless_schema:
  assumes "layoutType bd \<noteq> Immutable"
  shows "vulkanLayoutBindings (fst (BindingLayout_bindless ext ctx bd)) =
           [\<lparr>binding = 0, descriptorCount = maxCapacity bd, descriptorType = eMutableEXT,
             stageFlags = convertShaderTypeToShaderStageFlagBits ext (bindlessVisibility bd)\<rparr>] \<and>
         (''Mutable descriptor sets cannot specify register spaces''
            \<in> set (snd (BindingLayout_bindless ext ctx bd)) \<longleftrightarrow> registerSpaces bd \<noteq> [])"
  using assms by (simp add: BindingLayout_bindless_def Let_def)

theorem mutable_bindless_schema_witness:
  "layoutType exampleMutableDesc \<noteq> Immutable \<and>
   vulkanLayoutBindings
     (fst (BindingLayout_bindless exampleExternals exampleContext exampleMutableDesc)) =
     [\<lparr>binding = 0, descriptorCount = 512, descriptorType = eMutableEXT, stageFlags = 1\<rparr>] \<and>
   snd (BindingLayout_bindless exampleExternals exampleContext exampleMutableDesc) =
     [''Mutable descriptor sets cannot specify register spaces'']"
proof -
  have h: "layoutType exampleMutableDesc \<noteq> Immutable"
    by (simp add: exampleMutableDesc_def)
  from mutable_bindless_schema [OF h, of exampleExternals exampleContext] h show ?thesis
    by (simp add: BindingLayout_bindless_def exampleMutableDesc_def exampleExternals_def
        exampleContext_def Let_def)
qed

section \<open>Properties of the pool-size table\<close>

lemma typeTotal_Cons:
  "typeTotal (x # vs) t = (if descriptorType x = t then descriptorCount x else 0) + typeTotal vs t"
  by (simp add: typeTotal_def)

lemma countDescriptors_inv:
  "distinct (map fst m) \<Longrightarrow>
   distinct (map fst (countDescriptors vs m)) \<and>
   (\<forall>t. map_of (countDescriptors vs m) t =
      (case map_of m t of
         None \<Rightarrow> if t \<in> descriptorType ` set vs then Some (typeTotal vs t) else None
       | Some v \<Rightarrow> Some (v + typeTotal vs t)))"
proof (induction vs arbitrary: m)
  case Nil
  then show ?case by (simp add: typeTotal_def split: option.splits)
next
  case (Cons x vs)
  define m0 where "m0 = (if map_of m (descriptorType x) = None
                then m @ [(descriptorType x, 0)] else m)"
  define m1 where "m1 = map (\<lambda>(k, v). if k = descriptorType x
                           then (k, v + descriptorCount x) else (k, v)) m0"
  have step: "countDescriptors (x # vs) m = countDescriptors vs m1"
    by (simp add: m0_def m1_def Let_def)
  have d0: "distinct (map fst m0)" using Cons.prems
    by (auto simp: m0_def map_of_eq_None_iff)
  have keys1: "map fst m1 = map fst m0"
    by (simp add: m1_def split_def o_def if_distrib cong: if_cong)
  have d1: "distinct (map fst m1)" using d0 keys1 by simp
  have look0: "map_of m0 t = (if t = descriptorType x \<and> map_of m t = None then Some 0 else map_of m t)" for t
    by (auto simp: m0_def map_add_def split: option.splits)
  have look1: "map_of m1 t = (if t = descriptorType x then map_option (\<lambda>v. v + descriptorCount x) (map_of m0 t) else map_of m0 t)" for t
    unfolding m1_def by (induction m0) (auto)
  show ?case
    unfolding step using Cons.IH [OF d1]
    by (auto simp: look1 look0 typeTotal_Cons add_ac split: option.splits)
qed

lemma computePoolSizeInfo_eq:
  "computePoolSizeInfo m info =
     info @ map (\<lambda>kv. \<lparr>poolType = fst kv, poolDescriptorCount = snd kv\<rparr>)
              (filter (\<lambda>kv. snd kv > 0) m)"
  by (induction m arbitrary: info) simp_all

lemma distinct_filter_once:
  "distinct (map f xs) \<Longrightarrow> x \<in> set xs \<Longrightarrow> length (filter (\<lambda>y. f y = f x) xs) = 1"
proof (induction xs)
  case Nil
  then show ?case by simp
next
  case (Cons a xs)
  show ?case
  proof (cases "a = x")
    case True
    with Cons.prems have "filter (\<lambda>y. f y = f x) xs = []"
      by (auto simp: filter_empty_conv image_iff)
    with True show ?thesis by simp
  next
    case False
    with Cons.prems have "x \<in> set xs" "f a \<noteq> f x" by (auto simp: image_iff)
    with Cons show ?thesis by simp
  qed
qed

lemma typeTotal_nonzero_type:
  "typeTotal vs t \<noteq> 0 \<Longrightarrow> t \<in> descriptorType ` set vs"
proof (rule ccontr)
  assume nz: "typeTotal vs t \<noteq> 0" and "t \<notin> descriptorType ` set vs"
  then have "filter (\<lambda>e. descriptorType e = t) vs = []"
    by (auto simp: filter_empty_conv)
  with nz show False by (simp add: typeTotal_def)
qed

lemma pool_table:
  fixes vs
  defines "pool \<equiv> computePoolSizeInfo (countDescriptors vs []) []"
  shows "distinct (map poolType pool)"
    and "p \<in> set pool \<Longrightarrow> poolDescriptorCount p = typeTotal vs (poolType p) \<and> 0 < poolDescriptorCount p"
    and "0 < typeTotal vs t \<Longrightarrow> length (filter (\<lambda>p. poolType p = t) pool) = 1"
proof -
  define m where "m = countDescriptors vs []"
  have inv: "distinct (map fst m)"
    "\<And>t. map_of m t = (if t \<in> descriptorType ` set vs then Some (typeTotal vs t) else None)"
    using countDescriptors_inv [of "[]" vs] by (simp_all add: m_def)
  have pool_eq: "pool = map (\<lambda>kv. \<lparr>poolType = fst kv, poolDescriptorCount = snd kv\<rparr>)
              (filter (\<lambda>kv. snd kv > 0) m)"
    by (simp add: pool_def m_def computePoolSizeInfo_eq)
  have keys: "map poolType pool = map fst (filter (\<lambda>kv. snd kv > 0) m)"
    by (simp add: pool_eq o_def)
  show d: "distinct (map poolType pool)"
    unfolding keys using inv(1) by (rule distinct_map_filter)
  {
    assume "p \<in> set pool"
    then obtain kv where kv: "kv \<in> set m" "0 < snd kv" "p = \<lparr>poolType = fst kv, poolDescriptorCount = snd kv\<rparr>"
      by (auto simp: pool_eq)
    from kv(1) inv(1) have "map_of m (fst kv) = Some (snd kv)"
      by (metis map_of_is_SomeI prod.collapse)
    with inv(2) [of "fst kv"] have "snd kv = typeTotal vs (fst kv)"
      by (simp split: if_splits)
    with kv show "poolDescriptorCount p = typeTotal vs (poolType p) \<and> 0 < poolDescriptorCount p"
      by simp
  }
  {
    assume pos: "0 < typeTotal vs t"
    then have "typeTotal vs t \<noteq> 0" by auto
    from typeTotal_nonzero_type [OF this] inv(2) [of t]
    have "map_of m t = Some (typeTotal vs t)" by simp
    then have "(t, typeTotal vs t) \<in> set m" by (rule map_of_SomeD)
    with pos have mem: "\<lparr>poolType = t, poolDescriptorCount = typeTotal vs t\<rparr> \<in> set pool"
      by (force simp: pool_eq)
    from distinct_filter_once [OF d mem]
    show "length (filter (\<lambda>p. poolType p = t) pool) = 1" by simp
  }
qed

lemma bake_success:
  assumes "bake drv lay = (eSuccess, lay')"
  shows "descriptorPoolSizeInfo lay' =
     computePoolSizeInfo (countDescriptors (vulkanLayoutBindings lay) []) (descriptorPoolSizeInfo lay)"
    and "vulkanLayoutBindings lay' = vulkanLayoutBindings lay"
  using assms by (auto simp: bake_def Let_def split: prod.splits if_splits)

lemma constructors_leave_pool_empty:
  "BindingLayout_fixed ext d = Inr lay \<Longrightarrow> descriptorPoolSizeInfo lay = []"
  "descriptorPoolSizeInfo (fst (BindingLayout_bindless ext ctx bd)) = []"
  by (auto simp: BindingLayout_fixed_def BindingLayout_bindless_def bindR_def Let_def split_def
      split: sum.splits)

lemma unat_typeTotal: "unat (typeTotal vs t) = typeSum vs t mod 2 ^ 32"
proof (induction vs)
  case Nil
  show ?case by (simp add: typeTotal_def typeSum_def)
next
  case (Cons x vs)
  have split: "typeSum (x # vs) t =
      (if descriptorType x = t then unat (descriptorCount x) else 0) + typeSum vs t"
    by (simp add: typeSum_def)
  have "unat (typeTotal (x # vs) t) =
      (unat (if descriptorType x = t then descriptorCount x else 0) + unat (typeTotal vs t))
        mod 2 ^ 32"
    by (simp only: typeTotal_Cons unat_word_ariths(1)) simp
  also have "\<dots> = ((if descriptorType x = t then unat (descriptorCount x) else 0) +
      typeSum vs t mod 2 ^ 32) mod 2 ^ 32"
    by (simp add: Cons.IH)
  also have "\<dots> = typeSum (x # vs) t mod 2 ^ 32"
    by (simp only: split mod_add_right_eq)
  finally show ?case .
qed

lemma pool_table_absent:
  assumes "typeTotal vs t = 0"
  shows "filter (\<lambda>p. poolType p = t) (computePoolSizeInfo (countDescriptors vs []) []) = []"
proof -
  have "poolType p \<noteq> t" if "p \<in> set (computePoolSizeInfo (countDescriptors vs []) [])" for p
    using pool_table(2) [OF that] assms by auto
  then show ?thesis by (auto simp: filter_empty_conv)
qed

lemma exampleLargeLayout_bindings:
  "vulkanLayoutBindings exampleLargeLayout =
     [\<lparr>binding = 0, descriptorCount = 0x80000000, descriptorType = eSampledImage, stageFlags = 1\<rparr>,
      \<lparr>binding = 1, descriptorCount = 0x80000000, descriptorType = eSampler, stageFlags = 1\<rparr>,
      \<lparr>binding = 2, descriptorCount = 0x80000000, descriptorType = eSampledImage, stageFlags = 1\<rparr>]"
  "descriptorPoolSizeInfo exampleLargeLayout = []"
  by (simp_all add: exampleLargeLayout_def exampleLargeDesc_def BindingLayout_bindless_def
      exampleExternals_def exampleContext_def Let_def)

text \<open>
  The claim C9 as written fails: the layout built from two register spaces of sampled
  images and one of samplers, each of \<open>2\<^sup>3\<^sup>1\<close> descriptors, bakes successfully; the counts
  of its sampled-image schema entries sum to \<open>2\<^sup>3\<^sup>2\<close>, a positive total, and the pool-size
  table has no entry for sampled images: the table is the sampler entry alone.
\<close>

theorem pool_size_table_totals_counterexample:
  "fst (bake exampleDriver exampleLargeLayout) = eSuccess \<and>
   descriptorPoolSizeInfo exampleLargeLayout = [] \<and>
   typeSum (vulkanLayoutBindings (snd (bake exampleDriver exampleLargeLayout))) eSampledImage =
     4294967296 \<and>
   poolEntries (descriptorPoolSizeInfo (snd (bake exampleDriver exampleLargeLayout)))
     eSampledImage = [] \<and>
   descriptorPoolSizeInfo (snd (bake exampleDriver exampleLargeLayout)) =
     [\<lparr>poolType = eSampler, poolDescriptorCount = 0x80000000\<rparr>]"
  by (simp add: bake_def exampleDriver_def exampleLargeLayout_bindings Let_def typeSum_def
      poolEntries_def)

text \<open>
  C9, amended. For every baked BindingLayout (the native layout was created, and the
  pool-size table was empty before, as the constructors leave it): the per-type totals are
  accumulated in \<open>uint32_t\<close>, so each entry of the pool-size table has a count equal to the
  sum of the counts of all schema entries sharing that entry's native descriptor type
  modulo \<open>2\<^sup>3\<^sup>2\<close> (the sum itself when it is below \<open>2\<^sup>3\<^sup>2\<close>); no entry has a zero count;
  a native descriptor type appears exactly once when its sum is not a multiple of \<open>2\<^sup>3\<^sup>2\<close>,
  and not at all when it is.
\<close>

theorem pool_size_table_wrapped_totals:
  assumes "bake drv lay = (eSuccess, lay')" and "descriptorPoolSizeInfo lay = []"
  shows "(\<forall>p\<in>set (descriptorPoolSizeInfo lay').
            unat (poolDescriptorCount p) =
              typeSum (vulkanLayoutBindings lay') (poolType p) mod 2 ^ 32 \<and>
            (typeSum (vulkanLayoutBindings lay') (poolType p) < 2 ^ 32 \<longrightarrow>
               unat (poolDescriptorCount p) = typeSum (vulkanLayoutBindings lay') (poolType p)) \<and>
            0 < unat (poolDescriptorCount p)) \<and>
         (\<forall>t. typeSum (vulkanLayoutBindings lay') t mod 2 ^ 32 \<noteq> 0 \<longrightarrow>
            length (poolEntries (descriptorPoolSizeInfo lay') t) = 1) \<and>
         (\<forall>t. typeSum (vulkanLayoutBindings lay') t mod 2 ^ 32 = 0 \<longrightarrow>
            poolEntries (descriptorPoolSizeInfo lay') t = [])"
proof -
  define vs where "vs = vulkanLayoutBindings lay'"
  define pool where "pool = computePoolSizeInfo (countDescriptors vs []) []"
  have pool: "descriptorPoolSizeInfo lay' = pool"
    using bake_success [OF assms(1)] assms(2) by (simp add: pool_def vs_def)
  have entries: "unat (poolDescriptorCount p) = typeSum vs (poolType p) mod 2 ^ 32 \<and>
      (typeSum vs (poolType p) < 2 ^ 32 \<longrightarrow> unat (poolDescriptorCount p) = typeSum vs (poolType p)) \<and>
      0 < unat (poolDescriptorCount p)" if p: "p \<in> set pool" for p
  proof -
    from p have "poolDescriptorCount p = typeTotal vs (poolType p) \<and> 0 < poolDescriptorCount p"
      unfolding pool_def by (rule pool_table(2))
    then have c: "poolDescriptorCount p = typeTotal vs (poolType p)" "0 < poolDescriptorCount p"
      by blast+
    from c(1) have m: "unat (poolDescriptorCount p) = typeSum vs (poolType p) mod 2 ^ 32"
      by (simp only: unat_typeTotal)
    from c(2) have "0 < unat (poolDescriptorCount p)" by (simp add: word_less_nat_alt)
    with m show ?thesis by simp
  qed
  have once: "length (poolEntries pool t) = 1" if t: "typeSum vs t mod 2 ^ 32 \<noteq> 0" for t
  proof -
    from t have "unat (typeTotal vs t) \<noteq> 0" by (simp only: unat_typeTotal) simp
    then have "0 < typeTotal vs t" by (simp add: word_less_nat_alt)
    from pool_table(3) [OF this] show ?thesis by (simp add: pool_def poolEntries_def)
  qed
  have absent: "poolEntries pool t = []" if t: "typeSum vs t mod 2 ^ 32 = 0" for t
  proof -
    from t have "unat (typeTotal vs t) = 0" by (simp only: unat_typeTotal)
    then have "typeTotal vs t = 0" by (simp add: unat_eq_0)
    from pool_table_absent [OF this] show ?thesis by (simp add: pool_def poolEntries_def)
  qed
  from entries once absent show ?thesis
    unfolding pool vs_def [symmetric] by blast
qed

theorem pool_size_table_wrapped_totals_witness:
  "bake exampleDriver examplePoolLayout =
     (eSuccess, examplePoolLayout\<lparr>descriptorSetLayout := 7,
        descriptorPoolSizeInfo := [\<lparr>poolType = eStorageBuffer, poolDescriptorCount = 5\<rparr>]\<rparr>) \<and>
   descriptorPoolSizeInfo examplePoolLayout = [] \<and>
   typeSum (vulkanLayoutBindings examplePoolLayout) eStorageBuffer = 5 \<and>
   typeSum (vulkanLayoutBindings examplePoolLayout) eSampler = 0 \<and>
   length (poolEntries (descriptorPoolSizeInfo (snd (bake exampleDriver examplePoolLayout)))
     eStorageBuffer) = 1 \<and>
   poolEntries (descriptorPoolSizeInfo (snd (bake exampleDriver examplePoolLayout))) eSampler = []"
proof -
  have b: "bake exampleDriver examplePoolLayout =
     (eSuccess, examplePoolLayout\<lparr>descriptorSetLayout := 7,
        descriptorPoolSizeInfo := [\<lparr>poolType = eStorageBuffer, poolDescriptorCount = 5\<rparr>]\<rparr>)"
    by (simp add: bake_def exampleDriver_def examplePoolLayout_def Let_def)
  have e: "descriptorPoolSizeInfo examplePoolLayout = []"
    by (simp add: examplePoolLayout_def)
  have t: "typeSum (vulkanLayoutBindings examplePoolLayout) eStorageBuffer = 5"
    "typeSum (vulkanLayoutBindings examplePoolLayout) eSampler = 0"
    by (simp_all add: examplePoolLayout_def typeSum_def)
  from pool_size_table_wrapped_totals [OF b e] b e t show ?thesis
    by simp
qed

section \<open>Properties of descriptor tables\<close>

text \<open>
  C10. For every descriptor table (over a bindless layout) and every newSize not exceeding
  the layout's declared maxCapacity, resizeDescriptorTable changes nothing: it returns the
  table as it was (capacity, descriptor pool, descriptor set) and makes no native call, so
  the slots written before stay as they were; keepContents has no effect.
\<close>

theorem resize_changes_nothing:
  assumes "isBindless (tableLayout t)"
    and "newSize \<le> maxCapacity (bindlessDesc (tableLayout t))"
  shows "resizeDescriptorTable t newSize keepContents = Inr (t, [])"
  using assms by (simp add: resizeDescriptorTable_def getBindlessDesc_def)

theorem resize_changes_nothing_witness:
  "isBindless (tableLayout exampleTable) \<and>
   (10 :: u32) \<le> maxCapacity (bindlessDesc (tableLayout exampleTable)) \<and>
   resizeDescriptorTable exampleTable 10 True = Inr (exampleTable, []) \<and>
   resizeDescriptorTable exampleTable 10 False = Inr (exampleTable, [])"
proof -
  have h: "isBindless (tableLayout exampleTable)"
    "(10 :: u32) \<le> maxCapacity (bindlessDesc (tableLayout exampleTable))"
    by (simp_all add: exampleTable_def BindingLayout_bindless_def exampleTableDesc_def Let_def
        split_def)
  from resize_changes_nothing [OF h, of True] resize_changes_nothing [OF h, of False] h
  show ?thesis by simp
qed

text \<open>
  C4. For every descriptor table and binding item, writeDescriptorTable returns failure
  without any native call when the item's slot is greater than or equal to the table's
  capacity, and returns success without any native call for an item of type None at a slot
  below capacity.
\<close>

theorem write_descriptor_table_rejects:
  "(capacity t \<le> itemSlot item \<longrightarrow>
      writeDescriptorTable ext drv t item =
        Inr \<lparr>returned = False, nativeCalls = [], objectAfter = resourceHandle item\<rparr>) \<and>
   (itemSlot item < capacity t \<and> itemType item = RT_None \<longrightarrow>
      writeDescriptorTable ext drv t item =
        Inr \<lparr>returned = True, nativeCalls = [], objectAfter = resourceHandle item\<rparr>)"
  by (auto simp: writeDescriptorTable_def Let_def)

theorem write_descriptor_table_rejects_witness:
  "capacity exampleTable \<le> itemSlot (exampleSamplerItem\<lparr>itemSlot := 1024\<rparr>) \<and>
   writeDescriptorTable exampleExternals exampleDriver exampleTable
       (exampleSamplerItem\<lparr>itemSlot := 1024\<rparr>) =
     Inr \<lparr>returned = False, nativeCalls = [],
          objectAfter = resourceHandle exampleSamplerItem\<rparr> \<and>
   itemSlot (exampleSamplerItem\<lparr>itemType := RT_None\<rparr>) < capacity exampleTable \<and>
   itemType (exampleSamplerItem\<lparr>itemType := RT_None\<rparr>) = RT_None \<and>
   writeDescriptorTable exampleExternals exampleDriver exampleTable
       (exampleSamplerItem\<lparr>itemType := RT_None\<rparr>) =
     Inr \<lparr>returned = True, nativeCalls = [],
          objectAfter = resourceHandle exampleSamplerItem\<rparr>"
  using write_descriptor_table_rejects [of exampleTable "exampleSamplerItem\<lparr>itemSlot := 1024\<rparr>"
      exampleExternals exampleDriver]
    write_descriptor_table_rejects [of exampleTable "exampleSamplerItem\<lparr>itemType := RT_None\<rparr>"
      exampleExternals exampleDriver]
  by (simp add: exampleTable_def exampleSamplerItem_def)

lemma generateWrite_props:
  "descriptorWriteInfo (generateWriteDescriptorData t item loc dt ii bi bv st) =
     descriptorWriteInfo st @
       [\<lparr>dstSet = tableDescriptorSet t, dstBinding = loc, dstArrayElement = itemSlot item,
         writeDescriptorCount = 1, writeDescriptorType = dt, pImageInfo = ii,
         pBufferInfo = bi, pTexelBufferView = bv\<rparr>]"
  "calls (generateWriteDescriptorData t item loc dt ii bi bv st) = calls st"
  "object (generateWriteDescriptorData t item loc dt ii bi bv st) = object st"
  by (simp_all add: generateWriteDescriptorData_def)

lemma descriptorUpdates_append:
  "descriptorUpdates (cs @ ds) = descriptorUpdates cs @ descriptorUpdates ds"
  by (induction cs rule: descriptorUpdates.induct) simp_all

lemma writeTexture_one:
  "writeTexture ext t item lb u st = Inr st' \<Longrightarrow> oneWrite ext t item lb st st'"
  by (auto simp: writeTexture_def bindR_def Let_def oneWrite_def generateWrite_props
      split: sum.splits)

lemma writeBuffer_one:
  "writeBuffer ext t item lb st = Inr st' \<Longrightarrow> oneWrite ext t item lb st st'"
  by (auto simp: writeBuffer_def bindR_def Let_def oneWrite_def generateWrite_props
      split: sum.splits if_splits)

lemma writeSampler_one:
  "writeSampler ext t item lb st = Inr st' \<Longrightarrow> oneWrite ext t item lb st st'"
  by (auto simp: writeSampler_def bindR_def Let_def oneWrite_def generateWrite_props
      split: sum.splits)

lemma writeTypedBuffer_one:
  "writeTypedBuffer ext drv t item lb st = Inr st' \<Longrightarrow> oneWrite ext t item lb st st'"
  by (auto simp: writeTypedBuffer_def bindR_def Let_def oneWrite_def generateWrite_props
      descriptorUpdates_append
      split: sum.splits if_splits option.splits prod.splits)

lemma writeDescriptorForBinding_one:
  "writeDescriptorForBinding ext drv t item ty lb st = Inr st' \<Longrightarrow> oneWrite ext t item lb st st'"
  by (cases ty)
     (simp_all add: writeTexture_one writeBuffer_one writeSampler_one writeTypedBuffer_one)

lemma writeMatchingSpaces_writes:
  "writeMatchingSpaces ext drv t item (drop k all) k st = Inr st' \<Longrightarrow>
   \<exists>new. descriptorWriteInfo st' = descriptorWriteInfo st @ new \<and>
      map dstBinding new =
        map (\<lambda>i. binding (vulkanLayoutBindings (tableLayout t) ! i))
          (filter (\<lambda>i. type (all ! i) = itemType item) [k..<length all]) \<and>
      (\<forall>w\<in>set new. dstArrayElement w = itemSlot item \<and> writeDescriptorCount w = 1) \<and>
      descriptorUpdates (calls st') = descriptorUpdates (calls st)"
proof (induction "length all - k" arbitrary: k st)
  case 0
  then show ?case by simp
next
  case (Suc n)
  then have k: "k < length all" by simp
  have dr: "drop k all = all ! k # drop (Suc k) all"
    using k by (simp add: Cons_nth_drop_Suc)
  have up: "[k..<length all] = k # [Suc k..<length all]"
    using k by (simp add: upt_conv_Cons)
  from Suc.hyps(2) have n: "n = length all - Suc k" by simp
  show ?case
  proof (cases "type (all ! k) = itemType item")
    case False
    with Suc.prems have "writeMatchingSpaces ext drv t item (drop (Suc k) all) (Suc k) st = Inr st'"
      by (simp add: dr)
    from Suc.hyps(1) [OF n this] False show ?thesis
      by (simp add: up)
  next
    case True
    with Suc.prems obtain st1 where
      w: "writeDescriptorForBinding ext drv t item (itemType item)
            (vulkanLayoutBindings (tableLayout t) ! k) st = Inr st1"
      and r: "writeMatchingSpaces ext drv t item (drop (Suc k) all) (Suc k) st1 = Inr st'"
      by (auto simp: dr bindR_def split: if_splits sum.splits)
    from writeDescriptorForBinding_one [OF w] obtain w1 where
      w1: "descriptorWriteInfo st1 = descriptorWriteInfo st @ [w1]"
        "dstBinding w1 = binding (vulkanLayoutBindings (tableLayout t) ! k)"
        "dstArrayElement w1 = itemSlot item" "writeDescriptorCount w1 = 1"
        "descriptorUpdates (calls st1) = descriptorUpdates (calls st)"
      by (auto simp: oneWrite_def)
    from Suc.hyps(1) [OF n r] obtain new where
      new: "descriptorWriteInfo st' = descriptorWriteInfo st1 @ new"
        "map dstBinding new =
          map (\<lambda>i. binding (vulkanLayoutBindings (tableLayout t) ! i))
            (filter (\<lambda>i. type (all ! i) = itemType item) [Suc k..<length all])"
        "\<forall>w\<in>set new. dstArrayElement w = itemSlot item \<and> writeDescriptorCount w = 1"
        "descriptorUpdates (calls st') = descriptorUpdates (calls st1)"
      by blast
    show ?thesis
      apply (rule exI [of _ "w1 # new"])
      using w1 new True by (simp add: up)
  qed
qed

lemma constructed_immutable_binding:
  assumes "overConstructedLayout ext ctx t"
    and "layoutType (bindlessDesc (tableLayout t)) = Immutable"
    and "i < length (registerSpaces (bindlessDesc (tableLayout t)))"
  shows "binding (vulkanLayoutBindings (tableLayout t) ! i) = of_nat i"
  using assms
  by (simp add: overConstructedLayout_def bindless_immutable(1) nth_enumerate_eq)

lemma constructed_mutable_binding:
  assumes "overConstructedLayout ext ctx t"
    and "layoutType (bindlessDesc (tableLayout t)) \<noteq> Immutable"
  shows "binding (vulkanLayoutBindings (tableLayout t) ! 0) = 0"
  using assms
  by (simp add: overConstructedLayout_def BindingLayout_bindless_def Let_def)

lemma exampleTable_layout:
  "tableLayout exampleTable =
     \<lparr>desc = \<lparr>visibility = 1, registerSpace = 0, registerSpaceIsDescriptorSet = False,
         bindings = [], bindingOffsets = exampleOffsets\<rparr>,
      bindlessDesc = exampleTableDesc, isBindless = True,
      vulkanLayoutBindings =
        [\<lparr>binding = 0, descriptorCount = 1024, descriptorType = eSampledImage, stageFlags = 1\<rparr>,
         \<lparr>binding = 1, descriptorCount = 1024, descriptorType = eSampler, stageFlags = 1\<rparr>],
      descriptorSetLayout = 0, descriptorPoolSizeInfo = []\<rparr>"
  by (simp add: exampleTable_def BindingLayout_bindless_def exampleTableDesc_def
      exampleExternals_def Let_def)

lemma exampleTable_fields:
  "capacity exampleTable = 1024" "tableDescriptorSet exampleTable = 6"
  by (simp_all add: exampleTable_def)

lemma exampleTable_constructed:
  "overConstructedLayout exampleExternals exampleContext exampleTable"
  unfolding overConstructedLayout_def exampleTable_layout
  by (simp add: BindingLayout_bindless_def exampleTableDesc_def exampleExternals_def Let_def)

text \<open>
  C8, as stated, fails: on an Immutable layout without a register space of the binding's
  type, a call with a non-None binding at a valid slot succeeds, and its single native
  descriptor-update call carries no write at all.
\<close>

theorem write_descriptor_table_single_write_counterexample:
  "overConstructedLayout exampleExternals exampleContext exampleTable \<and>
   itemType exampleRawBufferItem \<noteq> RT_None \<and>
   itemSlot exampleRawBufferItem < capacity exampleTable \<and>
   writeDescriptorTable exampleExternals exampleDriver exampleTable exampleRawBufferItem =
     Inr \<lparr>returned = True, nativeCalls = [UpdateDescriptorSets []],
          objectAfter = resourceHandle exampleRawBufferItem\<rparr> \<and>
   \<not> singleElementUpdate [UpdateDescriptorSets []]"
proof -
  have "writeDescriptorTable exampleExternals exampleDriver exampleTable exampleRawBufferItem =
     Inr \<lparr>returned = True, nativeCalls = [UpdateDescriptorSets []],
          objectAfter = resourceHandle exampleRawBufferItem\<rparr>"
    by (simp add: writeDescriptorTable_def exampleTable_layout exampleTable_fields
        exampleRawBufferItem_def exampleTableDesc_def bindR_def)
  moreover have "itemSlot exampleRawBufferItem < capacity exampleTable"
    by (simp add: exampleTable_fields exampleRawBufferItem_def)
  moreover have "itemType exampleRawBufferItem \<noteq> RT_None"
    by (simp add: exampleRawBufferItem_def)
  moreover have "\<not> singleElementUpdate [UpdateDescriptorSets []]"
    by (simp add: singleElementUpdate_def)
  ultimately show ?thesis
    using exampleTable_constructed by simp
qed

text \<open>
  C8, amended. For every successful writeDescriptorTable call on a non-None binding at a
  valid slot, on a table over a constructed bindless layout: exactly one native
  descriptor-update call is issued; every write it carries is a single-element write with
  the slot as the array index; in mutable mode it carries exactly one write, at binding
  location 0; in Immutable mode it carries one write for each register space whose type
  is the binding's ResourceType, at that space's binding location (its position), in
  order, so exactly one write when exactly one space matches.
\<close>

theorem write_descriptor_table_writes:
  assumes con: "overConstructedLayout ext ctx t"
    and run: "writeDescriptorTable ext drv t item = Inr out"
    and ty: "itemType item \<noteq> RT_None"
    and sl: "itemSlot item < capacity t"
  shows "returned out \<and>
    (\<exists>ws. descriptorUpdates (nativeCalls out) = [ws] \<and>
       (\<forall>w\<in>set ws. dstArrayElement w = itemSlot item \<and> writeDescriptorCount w = 1) \<and>
       map dstBinding ws =
         (if layoutType (bindlessDesc (tableLayout t)) \<noteq> Immutable then [0]
          else map of_nat
            (filter (\<lambda>i. type (registerSpaces (bindlessDesc (tableLayout t)) ! i) = itemType item)
               [0..<length (registerSpaces (bindlessDesc (tableLayout t)))])))"
proof (cases "layoutType (bindlessDesc (tableLayout t)) = Immutable")
  case True
  define st0 where "st0 = \<lparr>descriptorWriteInfo = [], object = resourceHandle item, calls = []\<rparr>"
  from run ty sl True obtain st where
    loop: "writeMatchingSpaces ext drv t item (registerSpaces (bindlessDesc (tableLayout t))) 0 st0 = Inr st"
    and out: "out = \<lparr>returned = True,
                nativeCalls = calls st @ [UpdateDescriptorSets (descriptorWriteInfo st)],
                objectAfter = object st\<rparr>"
    by (auto simp: writeDescriptorTable_def Let_def bindR_def st0_def not_le [symmetric]
        split: sum.splits if_splits)
  from writeMatchingSpaces_writes [of ext drv t item 0 "registerSpaces (bindlessDesc (tableLayout t))" st0 st] loop
  obtain new where
    new: "descriptorWriteInfo st = new"
      "map dstBinding new =
        map (\<lambda>i. binding (vulkanLayoutBindings (tableLayout t) ! i))
          (filter (\<lambda>i. type (registerSpaces (bindlessDesc (tableLayout t)) ! i) = itemType item)
             [0..<length (registerSpaces (bindlessDesc (tableLayout t)))])"
      "\<forall>w\<in>set new. dstArrayElement w = itemSlot item \<and> writeDescriptorCount w = 1"
      "descriptorUpdates (calls st) = []"
    by (auto simp: st0_def)
  have "map (\<lambda>i. binding (vulkanLayoutBindings (tableLayout t) ! i))
          (filter (\<lambda>i. type (registerSpaces (bindlessDesc (tableLayout t)) ! i) = itemType item)
             [0..<length (registerSpaces (bindlessDesc (tableLayout t)))]) =
        map of_nat
          (filter (\<lambda>i. type (registerSpaces (bindlessDesc (tableLayout t)) ! i) = itemType item)
             [0..<length (registerSpaces (bindlessDesc (tableLayout t)))])"
    by (rule map_cong) (auto simp: constructed_immutable_binding [OF con True])
  with new out True show ?thesis
    by (simp add: descriptorUpdates_append)
next
  case False
  define st0 where "st0 = \<lparr>descriptorWriteInfo = [], object = resourceHandle item, calls = []\<rparr>"
  from run ty sl False obtain st where
    w: "writeDescriptorForBinding ext drv t item (itemType item)
          (vulkanLayoutBindings (tableLayout t) ! 0) st0 = Inr st"
    and out: "out = \<lparr>returned = True,
                nativeCalls = calls st @ [UpdateDescriptorSets (descriptorWriteInfo st)],
                objectAfter = object st\<rparr>"
    by (auto simp: writeDescriptorTable_def Let_def bindR_def st0_def not_le [symmetric]
        split: sum.splits if_splits)
  from writeDescriptorForBinding_one [OF w] obtain w1 where
    w1: "descriptorWriteInfo st = [w1]"
      "dstBinding w1 = binding (vulkanLayoutBindings (tableLayout t) ! 0)"
      "dstArrayElement w1 = itemSlot item" "writeDescriptorCount w1 = 1"
      "descriptorUpdates (calls st) = []"
    by (auto simp: oneWrite_def st0_def)
  with out False constructed_mutable_binding [OF con False] show ?thesis
    by (simp add: descriptorUpdates_append)
qed

theorem write_descriptor_table_writes_witness:
  "overConstructedLayout exampleExternals exampleContext exampleTable \<and>
   itemType exampleSamplerItem \<noteq> RT_None \<and>
   itemSlot exampleSamplerItem < capacity exampleTable \<and>
   writeDescriptorTable exampleExternals exampleDriver exampleTable exampleSamplerItem =
     Inr \<lparr>returned = True,
          nativeCalls = [UpdateDescriptorSets
            [\<lparr>dstSet = 6, dstBinding = 1, dstArrayElement = 3, writeDescriptorCount = 1,
              writeDescriptorType = eSampler,
              pImageInfo = Some \<lparr>infoSampler = 42, infoImageView = 0, infoImageLayout = eUndefined\<rparr>,
              pBufferInfo = None, pTexelBufferView = None\<rparr>]],
          objectAfter = resourceHandle exampleSamplerItem\<rparr> \<and>
   (\<exists>ws. descriptorUpdates [UpdateDescriptorSets
            [\<lparr>dstSet = 6, dstBinding = 1, dstArrayElement = 3, writeDescriptorCount = 1,
              writeDescriptorType = eSampler,
              pImageInfo = Some \<lparr>infoSampler = 42, infoImageView = 0, infoImageLayout = eUndefined\<rparr>,
              pBufferInfo = None, pTexelBufferView = None\<rparr>]] = [ws] \<and>
      map dstBinding ws = [1])"
proof -
  have run: "writeDescriptorTable exampleExternals exampleDriver exampleTable exampleSamplerItem =
     Inr \<lparr>returned = True,
          nativeCalls = [UpdateDescriptorSets
            [\<lparr>dstSet = 6, dstBinding = 1, dstArrayElement = 3, writeDescriptorCount = 1,
              writeDescriptorType = eSampler,
              pImageInfo = Some \<lparr>infoSampler = 42, infoImageView = 0, infoImageLayout = eUndefined\<rparr>,
              pBufferInfo = None, pTexelBufferView = None\<rparr>]],
          objectAfter = resourceHandle exampleSamplerItem\<rparr>"
    by (simp add: writeDescriptorTable_def exampleTable_layout exampleTable_fields
        exampleSamplerItem_def exampleTableDesc_def bindR_def
        writeSampler_def castSampler_def generateWriteDescriptorData_def exampleExternals_def)
  have ty: "itemType exampleSamplerItem \<noteq> RT_None"
    by (simp add: exampleSamplerItem_def)
  have sl: "itemSlot exampleSamplerItem < capacity exampleTable"
    by (simp add: exampleTable_fields exampleSamplerItem_def)
  from write_descriptor_table_writes [OF exampleTable_constructed run ty sl]
    exampleTable_constructed run ty sl
  show ?thesis
    by (simp add: exampleTable_layout exampleTableDesc_def exampleSamplerItem_def)
qed

section \<open>Properties of the pipeline layout\<close>

lemma placedAllD:
  assumes "placedAll ps out idx out' idx'"
  shows "length out' = length out + length (filter (\<lambda>p. isBindless (snd p)) ps)"
    and "length idx' = length out'"
    and "drop (length out) out' = map (\<lambda>p. Some (snd p)) (filter (\<lambda>p. isBindless (snd p)) ps)"
    and "drop (length out) idx' = map (\<lambda>p. of_nat (fst p)) (filter (\<lambda>p. isBindless (snd p)) ps)"
    and "\<And>p. p \<in> set ps \<Longrightarrow> \<not> isBindless (snd p) \<Longrightarrow>
        unat (registerSpace (desc (snd p))) < length out \<and>
        out ! unat (registerSpace (desc (snd p))) = None \<and>
        out' ! unat (registerSpace (desc (snd p))) = Some (snd p) \<and>
        idx' ! unat (registerSpace (desc (snd p))) = of_nat (fst p)"
    and "\<And>k. k < length out \<Longrightarrow>
        (\<And>p. p \<in> set ps \<Longrightarrow> \<not> isBindless (snd p) \<Longrightarrow> unat (registerSpace (desc (snd p))) \<noteq> k) \<Longrightarrow>
        out' ! k = out ! k \<and> idx' ! k = idx ! k"
  using assms unfolding placedAll_def by blast+

lemma placedAllI:
  assumes "length out' = length out + length (filter (\<lambda>p. isBindless (snd p)) ps)"
    and "length idx' = length out'"
    and "drop (length out) out' = map (\<lambda>p. Some (snd p)) (filter (\<lambda>p. isBindless (snd p)) ps)"
    and "drop (length out) idx' = map (\<lambda>p. of_nat (fst p)) (filter (\<lambda>p. isBindless (snd p)) ps)"
    and "\<And>p. p \<in> set ps \<Longrightarrow> \<not> isBindless (snd p) \<Longrightarrow>
        unat (registerSpace (desc (snd p))) < length out \<and>
        out ! unat (registerSpace (desc (snd p))) = None \<and>
        out' ! unat (registerSpace (desc (snd p))) = Some (snd p) \<and>
        idx' ! unat (registerSpace (desc (snd p))) = of_nat (fst p)"
    and "\<And>k. k < length out \<Longrightarrow>
        (\<forall>p\<in>set ps. \<not> isBindless (snd p) \<longrightarrow> unat (registerSpace (desc (snd p))) \<noteq> k) \<Longrightarrow>
        out' ! k = out ! k \<and> idx' ! k = idx ! k"
  shows "placedAll ps out idx out' idx'"
  using assms unfolding placedAll_def by blast

lemma placeLayouts_inv:
  "placeLayouts cap ps (out, idx) = Inr (out', idx') \<Longrightarrow> length idx = length out \<Longrightarrow>
   placedAll ps out idx out' idx'"
proof (induction ps arbitrary: out idx)
  case Nil
  then show ?case by (simp add: placedAll_def)
next
  case (Cons p ps)
  obtain i l where p: "p = (i, l)" by (cases p)
  show ?case
  proof (cases "isBindless l")
    case True
    define out1 where "out1 = out @ [Some l]"
    define idx1 where "idx1 = idx @ [of_nat i :: u32]"
    from Cons.prems True p have run: "placeLayouts cap ps (out1, idx1) = Inr (out', idx')"
      by (simp add: out1_def idx1_def split: if_splits)
    have len: "length idx1 = length out1" using Cons.prems by (simp add: out1_def idx1_def)
    have len1: "length out1 = Suc (length out)" by (simp add: out1_def)
    note ih = placedAllD [OF Cons.IH [OF run len]]
    have spaces: "unat (registerSpace (desc (snd q))) < length out \<and>
        out ! unat (registerSpace (desc (snd q))) = None \<and>
        out' ! unat (registerSpace (desc (snd q))) = Some (snd q) \<and>
        idx' ! unat (registerSpace (desc (snd q))) = of_nat (fst q)"
      if q: "q \<in> set ps" "\<not> isBindless (snd q)" for q
    proof -
      from ih(5) [OF q] have a: "unat (registerSpace (desc (snd q))) < Suc (length out)"
        and b: "out1 ! unat (registerSpace (desc (snd q))) = None"
        and c: "out' ! unat (registerSpace (desc (snd q))) = Some (snd q)"
          "idx' ! unat (registerSpace (desc (snd q))) = of_nat (fst q)"
        by (simp_all add: len1)
      have "unat (registerSpace (desc (snd q))) \<noteq> length out"
        using b by (auto simp: out1_def)
      with a have lt: "unat (registerSpace (desc (snd q))) < length out" by simp
      with b have "out ! unat (registerSpace (desc (snd q))) = None"
        by (simp add: out1_def nth_append)
      with lt c show ?thesis by simp
    qed
    have at: "out' ! length out = out1 ! length out \<and> idx' ! length out = idx1 ! length out"
    proof (rule ih(6))
      show "length out < length out1" by (simp add: len1)
      fix q assume "q \<in> set ps" "\<not> isBindless (snd q)"
      from spaces [OF this] show "unat (registerSpace (desc (snd q))) \<noteq> length out" by simp
    qed
    moreover have "idx1 ! length out = of_nat i"
      unfolding idx1_def Cons.prems(2) [symmetric] by (rule nth_append_length)
    moreover have "out1 ! length out = Some l"
      unfolding out1_def by (rule nth_append_length)
    ultimately have at': "out' ! length out = Some l" "idx' ! length out = of_nat i"
      by simp_all
    have lo: "length out < length out'" "length out < length idx'"
      using ih(1,2) by (simp_all add: len1)
    have d1: "drop (length out) out' = Some l # drop (length out1) out'"
      using Cons_nth_drop_Suc [OF lo(1)] at' by (simp add: len1)
    have d2: "drop (length out) idx' = of_nat i # drop (length out1) idx'"
      using Cons_nth_drop_Suc [OF lo(2)] at' by (simp add: len1)
    show ?thesis
    proof (rule placedAllI)
      show "length out' = length out + length (filter (\<lambda>p. isBindless (snd p)) (p # ps))"
        using ih(1) True by (simp add: p len1)
      show "length idx' = length out'" by (rule ih(2))
      show "drop (length out) out' =
          map (\<lambda>p. Some (snd p)) (filter (\<lambda>p. isBindless (snd p)) (p # ps))"
        using True by (simp add: p d1 ih(3))
      show "drop (length out) idx' =
          map (\<lambda>p. of_nat (fst p)) (filter (\<lambda>p. isBindless (snd p)) (p # ps))"
        using True by (simp add: p d2 ih(4))
    next
      fix q assume "q \<in> set (p # ps)" "\<not> isBindless (snd q)"
      with True p have "q \<in> set ps" by auto
      from spaces [OF this \<open>\<not> isBindless (snd q)\<close>]
      show "unat (registerSpace (desc (snd q))) < length out \<and>
        out ! unat (registerSpace (desc (snd q))) = None \<and>
        out' ! unat (registerSpace (desc (snd q))) = Some (snd q) \<and>
        idx' ! unat (registerSpace (desc (snd q))) = of_nat (fst q)" .
    next
      fix k assume k: "k < length out"
        and fr: "\<forall>p\<in>set (p # ps). \<not> isBindless (snd p) \<longrightarrow> unat (registerSpace (desc (snd p))) \<noteq> k"
      have "out' ! k = out1 ! k \<and> idx' ! k = idx1 ! k"
        by (rule ih(6)) (use k fr in \<open>simp_all add: len1\<close>)
      with k Cons.prems(2) show "out' ! k = out ! k \<and> idx' ! k = idx ! k"
        by (simp add: out1_def idx1_def nth_append)
    qed
  next
    case False
    define k0 where "k0 = unat (registerSpace (desc l))"
    define out1 where "out1 = out[k0 := Some l]"
    define idx1 where "idx1 = idx[k0 := of_nat i :: u32]"
    from Cons.prems False p have k0: "k0 < length out" "out ! k0 = None"
      and run: "placeLayouts cap ps (out1, idx1) = Inr (out', idx')"
      by (auto simp: k0_def out1_def idx1_def Let_def split: if_splits)
    have len: "length idx1 = length out1" using Cons.prems by (simp add: out1_def idx1_def)
    have len1: "length out1 = length out" by (simp add: out1_def)
    note ih = placedAllD [OF Cons.IH [OF run len]]
    have spaces: "unat (registerSpace (desc (snd q))) < length out \<and>
        unat (registerSpace (desc (snd q))) \<noteq> k0 \<and>
        out ! unat (registerSpace (desc (snd q))) = None \<and>
        out' ! unat (registerSpace (desc (snd q))) = Some (snd q) \<and>
        idx' ! unat (registerSpace (desc (snd q))) = of_nat (fst q)"
      if q: "q \<in> set ps" "\<not> isBindless (snd q)" for q
    proof -
      from ih(5) [OF q] have a: "unat (registerSpace (desc (snd q))) < length out"
        and b: "out1 ! unat (registerSpace (desc (snd q))) = None"
        and c: "out' ! unat (registerSpace (desc (snd q))) = Some (snd q)"
          "idx' ! unat (registerSpace (desc (snd q))) = of_nat (fst q)"
        by (simp_all add: len1)
      have ne: "unat (registerSpace (desc (snd q))) \<noteq> k0"
        using b k0 by (auto simp: out1_def)
      with b have "out ! unat (registerSpace (desc (snd q))) = None"
        by (simp add: out1_def)
      with a ne c show ?thesis by simp
    qed
    have at: "out' ! k0 = out1 ! k0 \<and> idx' ! k0 = idx1 ! k0"
    proof (rule ih(6))
      show "k0 < length out1" using k0 by (simp add: len1)
      fix q assume "q \<in> set ps" "\<not> isBindless (snd q)"
      from spaces [OF this] show "unat (registerSpace (desc (snd q))) \<noteq> k0" by simp
    qed
    then have at': "out' ! k0 = Some l" "idx' ! k0 = of_nat i"
      using Cons.prems(2) k0 by (simp_all add: out1_def idx1_def)
    show ?thesis
    proof (rule placedAllI)
      show "length out' = length out + length (filter (\<lambda>p. isBindless (snd p)) (p # ps))"
        using ih(1) False by (simp add: p len1)
      show "length idx' = length out'" by (rule ih(2))
      show "drop (length out) out' =
          map (\<lambda>p. Some (snd p)) (filter (\<lambda>p. isBindless (snd p)) (p # ps))"
        using False ih(3) by (simp add: p len1)
      show "drop (length out) idx' =
          map (\<lambda>p. of_nat (fst p)) (filter (\<lambda>p. isBindless (snd p)) (p # ps))"
        using False ih(4) by (simp add: p len1)
    next
      fix q assume q: "q \<in> set (p # ps)" "\<not> isBindless (snd q)"
      show "unat (registerSpace (desc (snd q))) < length out \<and>
        out ! unat (registerSpace (desc (snd q))) = None \<and>
        out' ! unat (registerSpace (desc (snd q))) = Some (snd q) \<and>
        idx' ! unat (registerSpace (desc (snd q))) = of_nat (fst q)"
      proof (cases "q = p")
        case True
        with k0 at' show ?thesis by (simp add: p k0_def)
      next
        case False
        with q have "q \<in> set ps" by simp
        from spaces [OF this q(2)] show ?thesis by simp
      qed
    next
      fix k assume k: "k < length out"
        and fr: "\<forall>p\<in>set (p # ps). \<not> isBindless (snd p) \<longrightarrow> unat (registerSpace (desc (snd p))) \<noteq> k"
      from fr False have ne: "k \<noteq> k0" by (auto simp: p k0_def)
      have "out' ! k = out1 ! k \<and> idx' ! k = idx1 ! k"
        by (rule ih(6)) (use k fr in \<open>simp_all add: len1\<close>)
      with ne show "out' ! k = out ! k \<and> idx' ! k = idx ! k"
        by (simp add: out1_def idx1_def)
    qed
  qed
qed

lemma numRegular_ge: "n \<le> numRegularDescriptorSets ls n"
proof (induction ls arbitrary: n)
  case Nil
  show ?case by simp
next
  case (Cons l ls)
  have "n \<le> (if \<not> isBindless l then max n (registerSpace (desc l) + 1) else n)" by simp
  also have "\<dots> \<le> numRegularDescriptorSets (l # ls) n"
    using Cons.IH by simp
  finally show ?case .
qed

lemma numRegular_upper:
  "l \<in> set ls \<Longrightarrow> \<not> isBindless l \<Longrightarrow> registerSpace (desc l) + 1 \<le> numRegularDescriptorSets ls n"
proof (induction ls arbitrary: n)
  case Nil
  then show ?case by simp
next
  case (Cons a ls)
  show ?case
  proof (cases "l = a")
    case True
    have "registerSpace (desc l) + 1 \<le> max n (registerSpace (desc l) + 1)" by simp
    also have "\<dots> \<le> numRegularDescriptorSets ls (max n (registerSpace (desc l) + 1))"
      by (rule numRegular_ge)
    finally show ?thesis using True Cons.prems by simp
  next
    case False
    with Cons.prems have "l \<in> set ls" by simp
    from Cons.IH [OF this Cons.prems(2)] show ?thesis by simp
  qed
qed

lemma numRegular_attained:
  "numRegularDescriptorSets ls n = n \<or>
   (\<exists>l\<in>set ls. \<not> isBindless l \<and> numRegularDescriptorSets ls n = registerSpace (desc l) + 1)"
proof (induction ls arbitrary: n)
  case Nil
  show ?case by simp
next
  case (Cons a ls)
  show ?case
  proof (cases "isBindless a")
    case True
    with Cons.IH [of n] show ?thesis by auto
  next
    case False
    from Cons.IH [of "max n (registerSpace (desc a) + 1)"] False show ?thesis
      by (auto simp: max_def split: if_splits)
  qed
qed

lemma indexed_has_regular:
  "createDescriptorSetIdxToBindingIdx ls \<Longrightarrow> \<exists>l\<in>set ls. \<not> isBindless l"
  by (induction ls) (auto split: if_splits)

lemma indexedMode_agrees: "createDescriptorSetIdxToBindingIdx ls = indexedMode ls"
  by (induction ls) (simp_all add: indexedMode_def)

lemma collectSetLayouts_fst:
  "collectSetLayouts ext cap ctx outs acc = Inr r \<Longrightarrow>
   fst r = fst acc @ map (\<lambda>ol. case ol of None \<Rightarrow> emptyDescriptorSetLayout ctx
                     | Some l \<Rightarrow> descriptorSetLayout l) outs"
proof (induction outs arbitrary: acc)
  case Nil
  then show ?case by simp
next
  case (Cons ol outs)
  obtain sl pcs vis where acc: "acc = (sl, pcs, vis)" by (cases acc)
  show ?case
  proof (cases ol)
    case None
    with Cons.prems have "collectSetLayouts ext cap ctx outs
        (sl @ [emptyDescriptorSetLayout ctx], pcs, vis) = Inr r"
      by (simp add: acc split: if_splits)
    from Cons.IH [OF this] show ?thesis by (simp add: acc None)
  next
    case (Some l)
    define pv where "pv =
        (if \<not> isBindless l then
           (case findPushConstants (bindings (desc l)) of
              Some item \<Rightarrow>
                (size' item, convertShaderTypeToShaderStageFlagBits ext (visibility (desc l)))
            | None \<Rightarrow> (pcs, vis))
         else (pcs, vis))"
    have room: "\<not> cap \<le> length sl"
    proof
      assume "cap \<le> length sl"
      with Cons.prems show False by (simp add: acc Some)
    qed
    with Cons.prems have "collectSetLayouts ext cap ctx outs
        (sl @ [descriptorSetLayout l], fst pv, snd pv) = Inr r"
      by (simp add: acc Some split_def Let_def pv_def)
    from Cons.IH [OF this] show ?thesis by (simp add: acc Some)
  qed
qed

lemma collectSetLayouts_completes:
  "length (fst acc) + length outs \<le> cap \<Longrightarrow>
   \<exists>r. collectSetLayouts ext cap ctx outs acc = Inr r"
proof (induction outs arbitrary: acc)
  case Nil
  obtain sl pcs vis where "acc = (sl, pcs, vis)" by (metis prod_cases3)
  then show ?case by simp
next
  case (Cons ol outs)
  obtain sl pcs vis where acc: "acc = (sl, pcs, vis)" by (metis prod_cases3)
  from Cons.prems have room: "length sl < cap" by (simp add: acc)
  show ?case
  proof (cases ol)
    case None
    have "\<exists>r. collectSetLayouts ext cap ctx outs
        (sl @ [emptyDescriptorSetLayout ctx], pcs, vis) = Inr r"
      by (rule Cons.IH) (use Cons.prems in \<open>simp add: acc\<close>)
    with room show ?thesis by (simp add: acc None)
  next
    case (Some l)
    have "\<exists>r. collectSetLayouts ext cap ctx outs (sl @ [descriptorSetLayout l], pv) = Inr r"
      for pv
      by (rule Cons.IH) (use Cons.prems in \<open>simp add: acc\<close>)
    with room show ?thesis by (simp add: acc Some split_def Let_def)
  qed
qed

lemma enumerate_as_map: "enumerate 0 ls = map (\<lambda>j. (j, ls ! j)) [0..<length ls]"
  by (rule nth_equalityI) (simp_all add: nth_enumerate_eq)

lemma bindless_positions:
  "map (\<lambda>p. of_nat (fst p)) (filter (\<lambda>p. isBindless (snd p)) (enumerate 0 ls)) =
   map of_nat (filter (\<lambda>j. isBindless (ls ! j)) [0..<length ls])"
  by (simp add: enumerate_as_map filter_map o_def)

lemma bindless_layouts:
  "map (\<lambda>p. Some (snd p)) (filter (\<lambda>p. isBindless (snd p)) (enumerate 0 ls)) =
   map Some (filter isBindless ls)"
proof -
  have "filter isBindless (map snd (enumerate 0 ls)) =
      map snd (filter (\<lambda>p. isBindless (snd p)) (enumerate 0 ls))"
    using filter_map [of isBindless snd "enumerate 0 ls"] by (simp only: o_def)
  then have "map snd (filter (\<lambda>p. isBindless (snd p)) (enumerate 0 ls)) = filter isBindless ls"
    by (simp only: map_snd_enumerate)
  then have "map Some (map snd (filter (\<lambda>p. isBindless (snd p)) (enumerate 0 ls))) =
      map Some (filter isBindless ls)"
    by (rule arg_cong)
  then show ?thesis by (simp add: o_def)
qed

lemma bindless_count:
  "length (filter (\<lambda>p. isBindless (snd p)) (enumerate 0 ls)) = length (filter isBindless ls)"
  using arg_cong [OF bindless_layouts [of ls], of length] by simp

lemma indexed_run:
  assumes mode: "createDescriptorSetIdxToBindingIdx ls"
    and run: "createPipelineLayout ext cap drv ctx ls = Inr out"
  shows "placedAll (enumerate 0 ls)
           (replicate (unat (numRegularDescriptorSets ls 0)) None)
           (replicate (unat (numRegularDescriptorSets ls 0)) 0xffffffff)
           (outBindingLayouts out) (outDescriptorSetIdxToBindingIdx out)"
    and "pSetLayouts (pipelineLayoutInfo out) =
           map (\<lambda>ol. case ol of None \<Rightarrow> emptyDescriptorSetLayout ctx
                     | Some l \<Rightarrow> descriptorSetLayout l) (outBindingLayouts out)"
proof -
  define N where "N = unat (numRegularDescriptorSets ls 0)"
  from run mode obtain outs idx r where
    pl: "placeLayouts (c_MaxBindingLayouts cap) (enumerate 0 ls)
           (replicate N None, replicate N 0xffffffff) = Inr (outs, idx)"
    and cl: "collectSetLayouts ext (c_MaxBindingLayouts cap) ctx outs ([], 0, 0) = Inr r"
    and o: "outBindingLayouts out = outs" "outDescriptorSetIdxToBindingIdx out = idx"
      "pSetLayouts (pipelineLayoutInfo out) = fst r"
    by (auto simp: createPipelineLayout_def bindR_def Let_def N_def split_def
        split: sum.splits if_splits)
  from placeLayouts_inv [OF pl] show "placedAll (enumerate 0 ls)
           (replicate (unat (numRegularDescriptorSets ls 0)) None)
           (replicate (unat (numRegularDescriptorSets ls 0)) 0xffffffff)
           (outBindingLayouts out) (outDescriptorSetIdxToBindingIdx out)"
    by (simp add: o N_def)
  show "pSetLayouts (pipelineLayoutInfo out) =
           map (\<lambda>ol. case ol of None \<Rightarrow> emptyDescriptorSetLayout ctx
                     | Some l \<Rightarrow> descriptorSetLayout l) (outBindingLayouts out)"
    using collectSetLayouts_fst [OF cl] by (simp add: o)
qed

lemma unat_plus_one:
  fixes w n :: u32
  assumes "unat w < unat n"
  shows "unat (w + 1) = Suc (unat w)"
proof -
  have "unat n < 2 ^ 32" using unsigned_less [of n] by simp
  with assms have "unat w + unat (1 :: u32) < 2 ^ LENGTH(32)" by simp
  then have "unat (w + 1) = unat w + unat (1 :: u32)" by (simp only: unat_add_lem)
  then show ?thesis by simp
qed

lemma regular_count:
  assumes mode: "createDescriptorSetIdxToBindingIdx ls"
    and below: "\<And>l. l \<in> set ls \<Longrightarrow> \<not> isBindless l \<Longrightarrow>
      unat (registerSpace (desc l)) < unat (numRegularDescriptorSets ls 0)"
  shows "unat (numRegularDescriptorSets ls 0) = regularSlotCount ls"
proof -
  define N where "N = numRegularDescriptorSets ls 0"
  from indexed_has_regular [OF mode] obtain l0 where l0: "l0 \<in> set ls" "\<not> isBindless l0"
    by blast
  from below [OF l0] have "N \<noteq> 0" by (auto simp: N_def)
  with numRegular_attained [of ls 0] obtain m where
    m: "m \<in> set ls" "\<not> isBindless m" "N = registerSpace (desc m) + 1"
    by (auto simp: N_def)
  have suc: "unat (registerSpace (desc l) + 1) = Suc (unat (registerSpace (desc l)))"
    if "l \<in> set ls" "\<not> isBindless l" for l
    using below [OF that] by (rule unat_plus_one)
  have mem: "unat (registerSpace (desc m)) \<in> set (regularSpaces ls)"
    using m by (auto simp: regularSpaces_def)
  have ub: "k \<le> unat (registerSpace (desc m))" if "k \<in> set (regularSpaces ls)" for k
  proof -
    from that obtain l where l: "l \<in> set ls" "\<not> isBindless l" "k = unat (registerSpace (desc l))"
      by (auto simp: regularSpaces_def)
    from below [OF l(1,2)] have "k < unat N" by (simp add: l N_def)
    also have "unat N = Suc (unat (registerSpace (desc m)))"
      using suc [OF m(1,2)] by (simp add: m(3))
    finally show ?thesis by simp
  qed
  have "Max (set (regularSpaces ls)) = unat (registerSpace (desc m))"
    by (rule Max_eqI) (use mem ub in auto)
  then show ?thesis
    using suc [OF m(1,2)] by (simp add: regularSlotCount_def N_def [symmetric] m(3))
qed

lemma indexed_placement:
  assumes mode: "createDescriptorSetIdxToBindingIdx ls"
    and run: "createPipelineLayout ext cap drv ctx ls = Inr out"
  shows "length (outBindingLayouts out) = regularSlotCount ls + length (filter isBindless ls) \<and>
     length (outDescriptorSetIdxToBindingIdx out) = length (outBindingLayouts out) \<and>
     length (pSetLayouts (pipelineLayoutInfo out)) = length (outBindingLayouts out) \<and>
     (\<forall>j<length ls. \<not> isBindless (ls ! j) \<longrightarrow>
        unat (registerSpace (desc (ls ! j))) < regularSlotCount ls \<and>
        outBindingLayouts out ! unat (registerSpace (desc (ls ! j))) = Some (ls ! j) \<and>
        outDescriptorSetIdxToBindingIdx out ! unat (registerSpace (desc (ls ! j))) = of_nat j \<and>
        pSetLayouts (pipelineLayoutInfo out) ! unat (registerSpace (desc (ls ! j))) =
          descriptorSetLayout (ls ! j)) \<and>
     drop (regularSlotCount ls) (outBindingLayouts out) = map Some (filter isBindless ls) \<and>
     drop (regularSlotCount ls) (outDescriptorSetIdxToBindingIdx out) =
       map of_nat (filter (\<lambda>j. isBindless (ls ! j)) [0..<length ls]) \<and>
     (\<forall>k<regularSlotCount ls. k \<notin> set (regularSpaces ls) \<longrightarrow>
        outBindingLayouts out ! k = None \<and>
        outDescriptorSetIdxToBindingIdx out ! k = 0xFFFFFFFF \<and>
        pSetLayouts (pipelineLayoutInfo out) ! k = emptyDescriptorSetLayout ctx)"
proof -
  define N where "N = unat (numRegularDescriptorSets ls 0)"
  define outs where "outs = outBindingLayouts out"
  define idx where "idx = outDescriptorSetIdxToBindingIdx out"
  define sls where "sls = pSetLayouts (pipelineLayoutInfo out)"
  note pl = placedAllD [OF indexed_run(1) [OF mode run], folded N_def outs_def idx_def,
      unfolded length_replicate]
  have sl: "sls = map (\<lambda>ol. case ol of None \<Rightarrow> emptyDescriptorSetLayout ctx
                     | Some l \<Rightarrow> descriptorSetLayout l) outs"
    unfolding sls_def outs_def by (rule indexed_run(2) [OF mode run])
  have placed: "unat (registerSpace (desc (ls ! j))) < N \<and>
      outs ! unat (registerSpace (desc (ls ! j))) = Some (ls ! j) \<and>
      idx ! unat (registerSpace (desc (ls ! j))) = of_nat j"
    if j: "j < length ls" "\<not> isBindless (ls ! j)" for j
  proof -
    from j(1) have "(j, ls ! j) \<in> set (enumerate 0 ls)"
      by (simp add: in_set_enumerate_eq)
    from pl(5) [OF this] j(2) show ?thesis by simp
  qed
  have "unat (registerSpace (desc l)) < N" if "l \<in> set ls" "\<not> isBindless l" for l
  proof -
    from that(1) obtain j where "j < length ls" "ls ! j = l" by (auto simp: in_set_conv_nth)
    with placed [of j] that(2) show ?thesis by simp
  qed
  then have N: "N = regularSlotCount ls"
    unfolding N_def using mode by (intro regular_count) auto
  have len: "length outs = N + length (filter isBindless ls)"
    using pl(1) by (simp add: bindless_count)
  have unused: "outs ! k = None \<and> idx ! k = 0xFFFFFFFF"
    if k: "k < N" "k \<notin> set (regularSpaces ls)" for k
  proof -
    have "outs ! k = replicate N None ! k \<and> idx ! k = replicate N 0xFFFFFFFF ! k"
    proof (rule pl(6) [OF k(1)])
      fix p assume p: "p \<in> set (enumerate 0 ls)" "\<not> isBindless (snd p)"
      then have "fst p < length ls \<and> ls ! fst p = snd p" by (simp add: in_set_enumerate_eq)
      then have "snd p \<in> set ls" using nth_mem [of "fst p" ls] by simp
      with p(2) have "unat (registerSpace (desc (snd p))) \<in> set (regularSpaces ls)"
        by (auto simp: regularSpaces_def)
      with k(2) show "unat (registerSpace (desc (snd p))) \<noteq> k" by auto
    qed
    with k(1) show ?thesis by simp
  qed
  have c1: "length outs = regularSlotCount ls + length (filter isBindless ls)"
    using len N by simp
  have c2: "length idx = length outs" by (rule pl(2))
  have c3: "length sls = length outs" by (simp add: sl)
  have c4: "\<forall>j<length ls. \<not> isBindless (ls ! j) \<longrightarrow>
        unat (registerSpace (desc (ls ! j))) < regularSlotCount ls \<and>
        outs ! unat (registerSpace (desc (ls ! j))) = Some (ls ! j) \<and>
        idx ! unat (registerSpace (desc (ls ! j))) = of_nat j \<and>
        sls ! unat (registerSpace (desc (ls ! j))) = descriptorSetLayout (ls ! j)"
  proof (intro allI impI)
    fix j assume j: "j < length ls" "\<not> isBindless (ls ! j)"
    from placed [OF j] have p: "unat (registerSpace (desc (ls ! j))) < N"
      "outs ! unat (registerSpace (desc (ls ! j))) = Some (ls ! j)"
      "idx ! unat (registerSpace (desc (ls ! j))) = of_nat j" by simp_all
    from p(1) len have "unat (registerSpace (desc (ls ! j))) < length outs" by simp
    then have "sls ! unat (registerSpace (desc (ls ! j))) = descriptorSetLayout (ls ! j)"
      by (simp add: sl p(2))
    with p N show "unat (registerSpace (desc (ls ! j))) < regularSlotCount ls \<and>
        outs ! unat (registerSpace (desc (ls ! j))) = Some (ls ! j) \<and>
        idx ! unat (registerSpace (desc (ls ! j))) = of_nat j \<and>
        sls ! unat (registerSpace (desc (ls ! j))) = descriptorSetLayout (ls ! j)"
      by simp
  qed
  have c5: "drop (regularSlotCount ls) outs = map Some (filter isBindless ls)"
    using pl(3) by (simp add: N bindless_layouts)
  have c6: "drop (regularSlotCount ls) idx =
       map of_nat (filter (\<lambda>j. isBindless (ls ! j)) [0..<length ls])"
    using pl(4) by (simp add: N bindless_positions)
  have c7: "\<forall>k<regularSlotCount ls. k \<notin> set (regularSpaces ls) \<longrightarrow>
        outs ! k = None \<and> idx ! k = 0xFFFFFFFF \<and> sls ! k = emptyDescriptorSetLayout ctx"
  proof (intro allI impI)
    fix k assume k: "k < regularSlotCount ls" "k \<notin> set (regularSpaces ls)"
    then have u: "outs ! k = None" "idx ! k = 0xFFFFFFFF" using unused [of k] N by simp_all
    from k(1) c1 have "k < length outs" by simp
    then have "sls ! k = emptyDescriptorSetLayout ctx" by (simp add: sl u(1))
    with u show "outs ! k = None \<and> idx ! k = 0xFFFFFFFF \<and> sls ! k = emptyDescriptorSetLayout ctx"
      by simp
  qed
  from c1 c2 c3 c4 c5 c6 c7 show ?thesis
    unfolding outs_def idx_def sls_def by blast
qed

lemma placeLayouts_completes:
  assumes "distinct (map (\<lambda>p. unat (registerSpace (desc (snd p))))
             (filter (\<lambda>p. \<not> isBindless (snd p)) ps))"
    and "\<forall>p\<in>set ps. \<not> isBindless (snd p) \<longrightarrow>
           unat (registerSpace (desc (snd p))) < length out \<and>
           out ! unat (registerSpace (desc (snd p))) = None"
    and "length idx = length out"
    and "length out + length (filter (\<lambda>p. isBindless (snd p)) ps) \<le> cap"
  shows "\<exists>r. placeLayouts cap ps (out, idx) = Inr r"
  using assms
proof (induction ps arbitrary: out idx)
  case Nil
  show ?case by simp
next
  case (Cons p ps)
  obtain i l where p: "p = (i, l)" by (cases p)
  show ?case
  proof (cases "isBindless l")
    case True
    from Cons.prems(4) True have room: "length out < cap" by (simp add: p)
    have "\<exists>r. placeLayouts cap ps (out @ [Some l], idx @ [of_nat i]) = Inr r"
    proof (rule Cons.IH)
      show "distinct (map (\<lambda>p. unat (registerSpace (desc (snd p))))
             (filter (\<lambda>p. \<not> isBindless (snd p)) ps))"
        using Cons.prems(1) True by (simp add: p)
      show "\<forall>q\<in>set ps. \<not> isBindless (snd q) \<longrightarrow>
           unat (registerSpace (desc (snd q))) < length (out @ [Some l]) \<and>
           (out @ [Some l]) ! unat (registerSpace (desc (snd q))) = None"
      proof (intro ballI impI)
        fix q assume q: "q \<in> set ps" "\<not> isBindless (snd q)"
        from q(1) have "q \<in> set (p # ps)" by simp
        with Cons.prems(2) q(2) have a: "unat (registerSpace (desc (snd q))) < length out"
          "out ! unat (registerSpace (desc (snd q))) = None" by blast+
        then show "unat (registerSpace (desc (snd q))) < length (out @ [Some l]) \<and>
           (out @ [Some l]) ! unat (registerSpace (desc (snd q))) = None"
          by (simp add: nth_append)
      qed
      show "length (idx @ [of_nat i :: u32]) = length (out @ [Some l])"
        using Cons.prems(3) by simp
      show "length (out @ [Some l]) + length (filter (\<lambda>p. isBindless (snd p)) ps) \<le> cap"
        using Cons.prems(4) True by (simp add: p)
    qed
    with True room Cons.prems(3) show ?thesis by (simp add: p)
  next
    case False
    define k0 where "k0 = unat (registerSpace (desc l))"
    from Cons.prems(2) False have k0: "k0 < length out" "out ! k0 = None"
      by (simp_all add: p k0_def)
    have fresh: "unat (registerSpace (desc (snd q))) \<noteq> k0"
      if "q \<in> set ps" "\<not> isBindless (snd q)" for q
    proof
      assume eq: "unat (registerSpace (desc (snd q))) = k0"
      from Cons.prems(1) False have "k0 \<notin> (\<lambda>p. unat (registerSpace (desc (snd p)))) `
          set (filter (\<lambda>p. \<not> isBindless (snd p)) ps)"
        by (simp add: p k0_def)
      moreover from that have "q \<in> set (filter (\<lambda>p. \<not> isBindless (snd p)) ps)" by simp
      ultimately show False using eq by (metis image_eqI)
    qed
    have "\<exists>r. placeLayouts cap ps (out[k0 := Some l], idx[k0 := of_nat i]) = Inr r"
    proof (rule Cons.IH)
      show "distinct (map (\<lambda>p. unat (registerSpace (desc (snd p))))
             (filter (\<lambda>p. \<not> isBindless (snd p)) ps))"
        using Cons.prems(1) False by (simp add: p)
      show "\<forall>q\<in>set ps. \<not> isBindless (snd q) \<longrightarrow>
           unat (registerSpace (desc (snd q))) < length (out[k0 := Some l]) \<and>
           out[k0 := Some l] ! unat (registerSpace (desc (snd q))) = None"
      proof (intro ballI impI)
        fix q assume q: "q \<in> set ps" "\<not> isBindless (snd q)"
        from q(1) have "q \<in> set (p # ps)" by simp
        with Cons.prems(2) q(2) have a: "unat (registerSpace (desc (snd q))) < length out"
          "out ! unat (registerSpace (desc (snd q))) = None" by blast+
        from fresh [OF q] a
        show "unat (registerSpace (desc (snd q))) < length (out[k0 := Some l]) \<and>
           out[k0 := Some l] ! unat (registerSpace (desc (snd q))) = None"
          by simp
      qed
      show "length (idx[k0 := of_nat i :: u32]) = length (out[k0 := Some l])"
        using Cons.prems(3) by simp
      show "length (out[k0 := Some l]) + length (filter (\<lambda>p. isBindless (snd p)) ps) \<le> cap"
        using Cons.prems(4) False by (simp add: p)
    qed
    with False k0 Cons.prems(3) show ?thesis
      by (simp add: p k0_def [symmetric] Let_def)
  qed
qed

lemma regular_pairs:
  "map (\<lambda>p. unat (registerSpace (desc (snd p)))) (filter (\<lambda>p. \<not> isBindless (snd p)) (enumerate 0 ls)) =
   regularSpaces ls"
proof -
  have "filter (\<lambda>l. \<not> isBindless l) (map snd (enumerate 0 ls)) =
      map snd (filter (\<lambda>p. \<not> isBindless (snd p)) (enumerate 0 ls))"
    using filter_map [of "\<lambda>l. \<not> isBindless l" snd "enumerate 0 ls"] by (simp only: o_def)
  then have "map snd (filter (\<lambda>p. \<not> isBindless (snd p)) (enumerate 0 ls)) =
      filter (\<lambda>l. \<not> isBindless l) ls"
    by (simp only: map_snd_enumerate)
  then have "map (\<lambda>l. unat (registerSpace (desc l)))
        (map snd (filter (\<lambda>p. \<not> isBindless (snd p)) (enumerate 0 ls))) = regularSpaces ls"
    by (simp only: regularSpaces_def)
  then show ?thesis by (simp add: o_def)
qed

lemma createPipelineLayout_completes:
  assumes mode: "createDescriptorSetIdxToBindingIdx ls"
    and dist: "distinct (regularSpaces ls)"
    and fit: "\<forall>k\<in>set (regularSpaces ls). k < 2 ^ 32 - 1"
    and room: "regularSlotCount ls + length (filter isBindless ls) \<le> c_MaxBindingLayouts cap"
  shows "\<exists>out. createPipelineLayout ext cap drv ctx ls = Inr out"
proof -
  define N where "N = unat (numRegularDescriptorSets ls 0)"
  define M where "M = c_MaxBindingLayouts cap"
  have below: "unat (registerSpace (desc l)) < N" if l: "l \<in> set ls" "\<not> isBindless l" for l
  proof -
    from l have "unat (registerSpace (desc l)) \<in> set (regularSpaces ls)"
      by (auto simp: regularSpaces_def)
    with fit have "unat (registerSpace (desc l)) + unat (1 :: u32) < 2 ^ LENGTH(32)" by auto
    then have "unat (registerSpace (desc l) + 1) = unat (registerSpace (desc l)) + unat (1 :: u32)"
      by (simp only: unat_add_lem)
    moreover have "unat (registerSpace (desc l) + 1) \<le> N"
      unfolding N_def using numRegular_upper [OF l, of 0] by (simp add: word_le_nat_alt)
    ultimately show ?thesis by simp
  qed
  have N: "N = regularSlotCount ls"
    unfolding N_def using mode by (rule regular_count) (use below in \<open>simp add: N_def\<close>)
  from room have NM: "N \<le> M" and all: "N + length (filter isBindless ls) \<le> M"
    by (simp_all add: N M_def)
  have "\<exists>r. placeLayouts M (enumerate 0 ls) (replicate N None, replicate N 0xffffffff) = Inr r"
  proof (rule placeLayouts_completes)
    show "distinct (map (\<lambda>p. unat (registerSpace (desc (snd p))))
             (filter (\<lambda>p. \<not> isBindless (snd p)) (enumerate 0 ls)))"
      using dist by (simp only: regular_pairs)
    show "\<forall>p\<in>set (enumerate 0 ls). \<not> isBindless (snd p) \<longrightarrow>
           unat (registerSpace (desc (snd p))) < length (replicate N (None :: BindingLayout option)) \<and>
           replicate N None ! unat (registerSpace (desc (snd p))) = None"
    proof (intro ballI impI)
      fix p assume p: "p \<in> set (enumerate 0 ls)" "\<not> isBindless (snd p)"
      then have "fst p < length ls \<and> ls ! fst p = snd p" by (simp add: in_set_enumerate_eq)
      then have "snd p \<in> set ls" using nth_mem [of "fst p" ls] by simp
      from below [OF this p(2)]
      show "unat (registerSpace (desc (snd p))) < length (replicate N (None :: BindingLayout option)) \<and>
           replicate N None ! unat (registerSpace (desc (snd p))) = None"
        by simp
    qed
    show "length (replicate N (0xffffffff :: u32)) = length (replicate N (None :: BindingLayout option))"
      by simp
    show "length (replicate N (None :: BindingLayout option)) +
        length (filter (\<lambda>p. isBindless (snd p)) (enumerate 0 ls)) \<le> M"
      using all by (simp add: bindless_count)
  qed
  then obtain outs idx where
    pl: "placeLayouts M (enumerate 0 ls) (replicate N None, replicate N 0xffffffff) = Inr (outs, idx)"
    by auto
  have "length outs = N + length (filter isBindless ls)"
    using placedAllD(1) [OF placeLayouts_inv [OF pl]] by (simp add: bindless_count)
  with all have "length (fst (([], 0, 0) :: VkDescriptorSetLayout list \<times> u32 \<times> ShaderStageFlags)) +
      length outs \<le> M" by simp
  from collectSetLayouts_completes [OF this] obtain r where
    cl: "collectSetLayouts ext M ctx outs ([], 0, 0) = Inr r" by blast
  from mode NM pl cl show ?thesis
    by (simp add: createPipelineLayout_def bindR_def Let_def N_def [symmetric] M_def [symmetric]
        split_def)
qed

lemma exampleLayoutT_fields:
  "isBindless exampleLayoutT = True" "descriptorSetLayout exampleLayoutT = 7"
  by (simp_all add: exampleLayoutT_def bake_def exampleDriver_def BindingLayout_bindless_def
      Let_def split_def)

lemma exampleAB_run:
  "createPipelineLayout exampleExternals exampleCapacities exampleDriver exampleContext
       [exampleLayoutA, exampleLayoutB] =
     Inr \<lparr>res = eSuccess, outPipelineLayout = 9,
          outBindingLayouts = [Some exampleLayoutA, None, Some exampleLayoutB],
          outPushConstantVisibility = 0,
          outDescriptorSetIdxToBindingIdx = [0, 0xFFFFFFFF, 1],
          pipelineLayoutInfo = \<lparr>pSetLayouts = [21, 99, 22], pPushConstantRanges = []\<rparr>\<rparr>"
proof -
  have A: "isBindless exampleLayoutA = False" "registerSpace (desc exampleLayoutA) = 0"
    "registerSpaceIsDescriptorSet (desc exampleLayoutA) = True"
    "bindings (desc exampleLayoutA) = [\<lparr>slot = 0, type = Texture_SRV, size' = 1\<rparr>]"
    "descriptorSetLayout exampleLayoutA = 21"
    by (simp_all add: exampleLayoutA_def)
  have B: "isBindless exampleLayoutB = False" "registerSpace (desc exampleLayoutB) = 2"
    "bindings (desc exampleLayoutB) = [\<lparr>slot = 1, type = Sampler, size' = 1\<rparr>]"
    "descriptorSetLayout exampleLayoutB = 22"
    by (simp_all add: exampleLayoutB_def)
  have r: "replicate 3 x = [x, x, x]" for x :: 'a
    by (simp add: numeral_3_eq_3)
  show ?thesis
    by (simp add: createPipelineLayout_def A B bindR_def Let_def r exampleDriver_def
        exampleContext_def exampleCapacities_def)
qed

lemma exampleTABT_run:
  "createPipelineLayout exampleExternals exampleCapacities exampleDriver exampleContext
       [exampleLayoutT, exampleLayoutA, exampleLayoutB, exampleLayoutT] =
     Inr \<lparr>res = eSuccess, outPipelineLayout = 9,
          outBindingLayouts = [Some exampleLayoutA, None, Some exampleLayoutB,
            Some exampleLayoutT, Some exampleLayoutT],
          outPushConstantVisibility = 0,
          outDescriptorSetIdxToBindingIdx = [1, 0xFFFFFFFF, 2, 0, 3],
          pipelineLayoutInfo = \<lparr>pSetLayouts = [21, 99, 22, 7, 7], pPushConstantRanges = []\<rparr>\<rparr>"
proof -
  have A: "isBindless exampleLayoutA = False" "registerSpace (desc exampleLayoutA) = 0"
    "registerSpaceIsDescriptorSet (desc exampleLayoutA) = True"
    "bindings (desc exampleLayoutA) = [\<lparr>slot = 0, type = Texture_SRV, size' = 1\<rparr>]"
    "descriptorSetLayout exampleLayoutA = 21"
    by (simp_all add: exampleLayoutA_def)
  have B: "isBindless exampleLayoutB = False" "registerSpace (desc exampleLayoutB) = 2"
    "bindings (desc exampleLayoutB) = [\<lparr>slot = 1, type = Sampler, size' = 1\<rparr>]"
    "descriptorSetLayout exampleLayoutB = 22"
    by (simp_all add: exampleLayoutB_def)
  have r: "replicate 3 x = [x, x, x]" for x :: 'a
    by (simp add: numeral_3_eq_3)
  show ?thesis
    by (simp add: createPipelineLayout_def A B exampleLayoutT_fields bindR_def Let_def r
        exampleDriver_def exampleContext_def exampleCapacities_def)
qed

lemma collision_trips_assertion:
  "createPipelineLayout exampleExternals exampleCapacities exampleDriver exampleContext
       [exampleLayoutA, exampleLayoutA\<lparr>descriptorSetLayout := 23\<rparr>] = Inl AssertionFailed"
proof -
  have A: "isBindless exampleLayoutA = False" "registerSpace (desc exampleLayoutA) = 0"
    "registerSpaceIsDescriptorSet (desc exampleLayoutA) = True"
    by (simp_all add: exampleLayoutA_def)
  show ?thesis
    by (simp add: createPipelineLayout_def A bindR_def Let_def exampleCapacities_def)
qed

lemma capacity_trips_assertion:
  "createPipelineLayout exampleExternals exampleCapacities exampleDriver exampleContext
       [exampleLayoutA\<lparr>desc := (desc exampleLayoutA)\<lparr>registerSpace := 100\<rparr>\<rparr>] =
     Inl AssertionFailed"
proof -
  have A: "isBindless exampleLayoutA = False"
    "registerSpaceIsDescriptorSet (desc exampleLayoutA) = True"
    by (simp_all add: exampleLayoutA_def)
  show ?thesis
    by (simp add: createPipelineLayout_def A bindR_def Let_def exampleCapacities_def)
qed

text \<open>
  C2. For every input layout collection in indexed mode (the first non-bindless layout's
  registerSpaceIsDescriptorSet flag is true): createPipelineLayout completes whenever the
  register spaces of the non-bindless layouts are pairwise distinct and below 0xFFFFFFFF
  (a collision trips the source's assertion) and the regular slots together with the
  bindless layouts fit the capacity of the output vectors, and whenever it completes it
  has produced 1 + max(registerSpace over non-bindless layouts) regular descriptor-set
  slots, placed each non-bindless layout (and its input position, in the index map) at
  the descriptor-set index equal to its registerSpace, appended all bindless layouts
  after the regular slots in input order, marked every unused regular slot in the index
  map with 0xFFFFFFFF, and passed the shared empty descriptor-set layout for it to the
  native call. The layouts A (registerSpace 0) and B (registerSpace 2) give the index map
  [0, 0xFFFFFFFF, 1] and the empty layout at position 1; with a bindless layout before
  and after them the index map is [1, 0xFFFFFFFF, 2, 0, 3]: see the witness.
\<close>

theorem indexed_pipeline_layout:
  assumes mode: "indexedMode ls"
  shows "(distinct (regularSpaces ls) \<and> (\<forall>k\<in>set (regularSpaces ls). k < 2 ^ 32 - 1) \<and>
       regularSlotCount ls + length (filter isBindless ls) \<le> c_MaxBindingLayouts cap \<longrightarrow>
      (\<exists>out. createPipelineLayout ext cap drv ctx ls = Inr out)) \<and>
   (\<forall>out. createPipelineLayout ext cap drv ctx ls = Inr out \<longrightarrow>
     length (outBindingLayouts out) = regularSlotCount ls + length (filter isBindless ls) \<and>
     length (outDescriptorSetIdxToBindingIdx out) = length (outBindingLayouts out) \<and>
     length (pSetLayouts (pipelineLayoutInfo out)) = length (outBindingLayouts out) \<and>
     (\<forall>j<length ls. \<not> isBindless (ls ! j) \<longrightarrow>
        unat (registerSpace (desc (ls ! j))) < regularSlotCount ls \<and>
        outBindingLayouts out ! unat (registerSpace (desc (ls ! j))) = Some (ls ! j) \<and>
        outDescriptorSetIdxToBindingIdx out ! unat (registerSpace (desc (ls ! j))) = of_nat j \<and>
        pSetLayouts (pipelineLayoutInfo out) ! unat (registerSpace (desc (ls ! j))) =
          descriptorSetLayout (ls ! j)) \<and>
     drop (regularSlotCount ls) (outBindingLayouts out) = map Some (filter isBindless ls) \<and>
     drop (regularSlotCount ls) (outDescriptorSetIdxToBindingIdx out) =
       map of_nat (filter (\<lambda>j. isBindless (ls ! j)) [0..<length ls]) \<and>
     (\<forall>k<regularSlotCount ls. k \<notin> set (regularSpaces ls) \<longrightarrow>
        outBindingLayouts out ! k = None \<and>
        outDescriptorSetIdxToBindingIdx out ! k = 0xFFFFFFFF \<and>
        pSetLayouts (pipelineLayoutInfo out) ! k = emptyDescriptorSetLayout ctx))"
proof (intro conjI allI impI)
  from mode have mode': "createDescriptorSetIdxToBindingIdx ls"
    by (simp only: indexedMode_agrees)
  {
    assume "distinct (regularSpaces ls) \<and> (\<forall>k\<in>set (regularSpaces ls). k < 2 ^ 32 - 1) \<and>
       regularSlotCount ls + length (filter isBindless ls) \<le> c_MaxBindingLayouts cap"
    then show "\<exists>out. createPipelineLayout ext cap drv ctx ls = Inr out"
      using createPipelineLayout_completes [OF mode'] by blast
  }
  {
    fix out assume run: "createPipelineLayout ext cap drv ctx ls = Inr out"
    note p = indexed_placement [OF mode' run]
    from p show "length (outBindingLayouts out) =
        regularSlotCount ls + length (filter isBindless ls)" by blast
    from p show "length (outDescriptorSetIdxToBindingIdx out) = length (outBindingLayouts out)"
      by blast
    from p show "length (pSetLayouts (pipelineLayoutInfo out)) = length (outBindingLayouts out)"
      by blast
    from p show "drop (regularSlotCount ls) (outBindingLayouts out) =
        map Some (filter isBindless ls)" by blast
    from p show "drop (regularSlotCount ls) (outDescriptorSetIdxToBindingIdx out) =
         map of_nat (filter (\<lambda>j. isBindless (ls ! j)) [0..<length ls])" by blast
  }
  {
    fix out j assume run: "createPipelineLayout ext cap drv ctx ls = Inr out"
      and j: "j < length ls" "\<not> isBindless (ls ! j)"
    from indexed_placement [OF mode' run] j
    have "unat (registerSpace (desc (ls ! j))) < regularSlotCount ls \<and>
          outBindingLayouts out ! unat (registerSpace (desc (ls ! j))) = Some (ls ! j) \<and>
          outDescriptorSetIdxToBindingIdx out ! unat (registerSpace (desc (ls ! j))) = of_nat j \<and>
          pSetLayouts (pipelineLayoutInfo out) ! unat (registerSpace (desc (ls ! j))) =
            descriptorSetLayout (ls ! j)"
      by blast
    then show "unat (registerSpace (desc (ls ! j))) < regularSlotCount ls"
      "outBindingLayouts out ! unat (registerSpace (desc (ls ! j))) = Some (ls ! j)"
      "outDescriptorSetIdxToBindingIdx out ! unat (registerSpace (desc (ls ! j))) = of_nat j"
      "pSetLayouts (pipelineLayoutInfo out) ! unat (registerSpace (desc (ls ! j))) =
            descriptorSetLayout (ls ! j)"
      by simp_all
  }
  {
    fix out k assume run: "createPipelineLayout ext cap drv ctx ls = Inr out"
      and k: "k < regularSlotCount ls" "k \<notin> set (regularSpaces ls)"
    from indexed_placement [OF mode' run] k
    have "outBindingLayouts out ! k = None \<and>
          outDescriptorSetIdxToBindingIdx out ! k = 0xFFFFFFFF \<and>
          pSetLayouts (pipelineLayoutInfo out) ! k = emptyDescriptorSetLayout ctx"
      by blast
    then show "outBindingLayouts out ! k = None"
      "outDescriptorSetIdxToBindingIdx out ! k = 0xFFFFFFFF"
      "pSetLayouts (pipelineLayoutInfo out) ! k = emptyDescriptorSetLayout ctx"
      by simp_all
  }
qed

theorem indexed_pipeline_layout_witness:
  "indexedMode [exampleLayoutA, exampleLayoutB] \<and>
   distinct (regularSpaces [exampleLayoutA, exampleLayoutB]) \<and>
   regularSlotCount [exampleLayoutA, exampleLayoutB] = 3 \<and>
   (\<exists>out. createPipelineLayout exampleExternals exampleCapacities exampleDriver exampleContext
        [exampleLayoutA, exampleLayoutB] = Inr out \<and>
      outDescriptorSetIdxToBindingIdx out = [0, 0xFFFFFFFF, 1] \<and>
      outBindingLayouts out = [Some exampleLayoutA, None, Some exampleLayoutB] \<and>
      pSetLayouts (pipelineLayoutInfo out) =
        [descriptorSetLayout exampleLayoutA, emptyDescriptorSetLayout exampleContext,
         descriptorSetLayout exampleLayoutB]) \<and>
   indexedMode [exampleLayoutT, exampleLayoutA, exampleLayoutB, exampleLayoutT] \<and>
   distinct (regularSpaces [exampleLayoutT, exampleLayoutA, exampleLayoutB, exampleLayoutT]) \<and>
   regularSlotCount [exampleLayoutT, exampleLayoutA, exampleLayoutB, exampleLayoutT] +
     length (filter isBindless [exampleLayoutT, exampleLayoutA, exampleLayoutB, exampleLayoutT])
     = 5 \<and>
   (\<exists>out. createPipelineLayout exampleExternals exampleCapacities exampleDriver exampleContext
        [exampleLayoutT, exampleLayoutA, exampleLayoutB, exampleLayoutT] = Inr out \<and>
      outDescriptorSetIdxToBindingIdx out = [1, 0xFFFFFFFF, 2, 0, 3] \<and>
      outBindingLayouts out = [Some exampleLayoutA, None, Some exampleLayoutB,
        Some exampleLayoutT, Some exampleLayoutT] \<and>
      pSetLayouts (pipelineLayoutInfo out) =
        [descriptorSetLayout exampleLayoutA, emptyDescriptorSetLayout exampleContext,
         descriptorSetLayout exampleLayoutB, descriptorSetLayout exampleLayoutT,
         descriptorSetLayout exampleLayoutT])"
proof -
  have f: "isBindless exampleLayoutA = False" "isBindless exampleLayoutB = False"
    "registerSpaceIsDescriptorSet (desc exampleLayoutA) = True"
    "registerSpace (desc exampleLayoutA) = 0" "registerSpace (desc exampleLayoutB) = 2"
    by (simp_all add: exampleLayoutA_def exampleLayoutB_def)
  have handles: "descriptorSetLayout exampleLayoutA = 21" "descriptorSetLayout exampleLayoutB = 22"
    "emptyDescriptorSetLayout exampleContext = 99" "descriptorSetLayout exampleLayoutT = 7"
    by (simp_all add: exampleLayoutA_def exampleLayoutB_def exampleContext_def
        exampleLayoutT_fields)
  have cap: "c_MaxBindingLayouts exampleCapacities = 8"
    by (simp add: exampleCapacities_def)
  have mode: "indexedMode [exampleLayoutA, exampleLayoutB]"
    by (simp add: indexedMode_def f)
  have spaces: "regularSpaces [exampleLayoutA, exampleLayoutB] = [0, 2]"
    by (simp add: regularSpaces_def f)
  have dist: "distinct (regularSpaces [exampleLayoutA, exampleLayoutB])"
    by (simp add: spaces)
  have count: "regularSlotCount [exampleLayoutA, exampleLayoutB] = 3"
    by (simp add: regularSlotCount_def spaces)
  have pre: "distinct (regularSpaces [exampleLayoutA, exampleLayoutB]) \<and>
      (\<forall>k\<in>set (regularSpaces [exampleLayoutA, exampleLayoutB]). k < 2 ^ 32 - 1) \<and>
      regularSlotCount [exampleLayoutA, exampleLayoutB] +
        length (filter isBindless [exampleLayoutA, exampleLayoutB])
        \<le> c_MaxBindingLayouts exampleCapacities"
    by (simp add: spaces count cap f)
  from indexed_pipeline_layout [OF mode, of exampleCapacities exampleExternals exampleDriver
      exampleContext, THEN conjunct1, THEN mp, OF pre]
  obtain out1 where run1: "createPipelineLayout exampleExternals exampleCapacities exampleDriver
      exampleContext [exampleLayoutA, exampleLayoutB] = Inr out1" by blast
  with exampleAB_run have o1: "out1 = \<lparr>res = eSuccess, outPipelineLayout = 9,
          outBindingLayouts = [Some exampleLayoutA, None, Some exampleLayoutB],
          outPushConstantVisibility = 0,
          outDescriptorSetIdxToBindingIdx = [0, 0xFFFFFFFF, 1],
          pipelineLayoutInfo = \<lparr>pSetLayouts = [21, 99, 22], pPushConstantRanges = []\<rparr>\<rparr>"
    by simp
  have v1: "outDescriptorSetIdxToBindingIdx out1 = [0, 0xFFFFFFFF, 1]"
    "outBindingLayouts out1 = [Some exampleLayoutA, None, Some exampleLayoutB]"
    "pSetLayouts (pipelineLayoutInfo out1) =
        [descriptorSetLayout exampleLayoutA, emptyDescriptorSetLayout exampleContext,
         descriptorSetLayout exampleLayoutB]"
    by (simp_all add: o1 handles)
  have mode2: "indexedMode [exampleLayoutT, exampleLayoutA, exampleLayoutB, exampleLayoutT]"
    by (simp add: indexedMode_def f exampleLayoutT_fields)
  have spaces2: "regularSpaces [exampleLayoutT, exampleLayoutA, exampleLayoutB, exampleLayoutT] =
      [0, 2]"
    by (simp add: regularSpaces_def f exampleLayoutT_fields)
  have dist2: "distinct (regularSpaces
      [exampleLayoutT, exampleLayoutA, exampleLayoutB, exampleLayoutT])"
    by (simp add: spaces2)
  have count2: "regularSlotCount [exampleLayoutT, exampleLayoutA, exampleLayoutB, exampleLayoutT] +
      length (filter isBindless [exampleLayoutT, exampleLayoutA, exampleLayoutB, exampleLayoutT])
      = 5"
    by (simp add: regularSlotCount_def spaces2 f exampleLayoutT_fields)
  have pre2: "distinct (regularSpaces
        [exampleLayoutT, exampleLayoutA, exampleLayoutB, exampleLayoutT]) \<and>
      (\<forall>k\<in>set (regularSpaces [exampleLayoutT, exampleLayoutA, exampleLayoutB, exampleLayoutT]).
         k < 2 ^ 32 - 1) \<and>
      regularSlotCount [exampleLayoutT, exampleLayoutA, exampleLayoutB, exampleLayoutT] +
        length (filter isBindless [exampleLayoutT, exampleLayoutA, exampleLayoutB, exampleLayoutT])
        \<le> c_MaxBindingLayouts exampleCapacities"
    unfolding count2 by (simp add: spaces2 cap)
  from indexed_pipeline_layout [OF mode2, of exampleCapacities exampleExternals exampleDriver
      exampleContext, THEN conjunct1, THEN mp, OF pre2]
  obtain out2 where run2: "createPipelineLayout exampleExternals exampleCapacities exampleDriver
      exampleContext [exampleLayoutT, exampleLayoutA, exampleLayoutB, exampleLayoutT] = Inr out2"
    by blast
  with exampleTABT_run have o2: "out2 = \<lparr>res = eSuccess, outPipelineLayout = 9,
          outBindingLayouts = [Some exampleLayoutA, None, Some exampleLayoutB,
            Some exampleLayoutT, Some exampleLayoutT],
          outPushConstantVisibility = 0,
          outDescriptorSetIdxToBindingIdx = [1, 0xFFFFFFFF, 2, 0, 3],
          pipelineLayoutInfo = \<lparr>pSetLayouts = [21, 99, 22, 7, 7], pPushConstantRanges = []\<rparr>\<rparr>"
    by simp
  have v2: "outDescriptorSetIdxToBindingIdx out2 = [1, 0xFFFFFFFF, 2, 0, 3]"
    "outBindingLayouts out2 = [Some exampleLayoutA, None, Some exampleLayoutB,
        Some exampleLayoutT, Some exampleLayoutT]"
    "pSetLayouts (pipelineLayoutInfo out2) =
        [descriptorSetLayout exampleLayoutA, emptyDescriptorSetLayout exampleContext,
         descriptorSetLayout exampleLayoutB, descriptorSetLayout exampleLayoutT,
         descriptorSetLayout exampleLayoutT]"
    by (simp_all add: o2 handles)
  note facts = mode dist count run1 v1 mode2 dist2 count2 run2 v2
  show ?thesis
    by (intro conjI exI [of _ out1] exI [of _ out2]) (rule facts)+
qed

section \<open>Properties of binding descriptor sets\<close>

lemma ucast_back:
  fixes w :: u64
  assumes "w < 0xffffffff"
  shows "(ucast (ucast w :: u32) :: u64) = w"
proof -
  from assms have "unat w < 2 ^ 32" by (simp add: word_less_nat_alt)
  have "unat (ucast (ucast w :: u32) :: u64) = unat w"
    using \<open>unat w < 2 ^ 32\<close>
    by (simp add: unsigned_ucast_eq unsigned_take_bit_eq take_bit_nat_eq_self)
  then show ?thesis by (simp add: word_unat_eq_iff)
qed

lemma appendDynamicOffsets_Inr:
  "appendDynamicOffsets ext mx states cbs (offs, errs) = Inr (offs', errs') \<Longrightarrow>
   \<exists>new. offs' = offs @ new \<and> list_all2 (claimedOffset states) cbs new \<and>
     errs' = errs @ map (unwrittenMessage ext) (filter (unwritten states) cbs)"
proof (induction cbs arbitrary: offs errs)
  case Nil
  then show ?case by simp
next
  case (Cons cb cbs)
  show ?case
  proof (cases "states (fst cb)")
    case None
    with Cons.prems have "appendDynamicOffsets ext mx states cbs
        (offs @ [0], errs @ [unwrittenMessage ext cb]) = Inr (offs', errs')"
      by (simp split: if_splits)
    from Cons.IH [OF this] obtain new where
      "offs' = (offs @ [0]) @ new" "list_all2 (claimedOffset states) cbs new"
      "errs' = (errs @ [unwrittenMessage ext cb]) @
         map (unwrittenMessage ext) (filter (unwritten states) cbs)"
      by blast
    moreover have "claimedOffset states cb 0" "unwritten states cb"
      using None by (simp_all add: claimedOffset_def unwritten_def)
    ultimately show ?thesis
      by (intro exI [of _ "0 # new"]) simp
  next
    case (Some found)
    define offset where
      "offset = (ucast (latestVersion found) :: u64) * bufferByteSize (bufferDesc (snd cb))"
    from Cons.prems Some have lt: "offset < 0xffffffff"
      and run: "appendDynamicOffsets ext mx states cbs (offs @ [ucast offset], errs) = Inr (offs', errs')"
      by (auto simp: Let_def offset_def split: if_splits)
    from Cons.IH [OF run] obtain new where
      "offs' = (offs @ [ucast offset]) @ new" "list_all2 (claimedOffset states) cbs new"
      "errs' = errs @ map (unwrittenMessage ext) (filter (unwritten states) cbs)"
      by blast
    moreover have "claimedOffset states cb (ucast offset)"
      using Some ucast_back [OF lt] by (simp add: claimedOffset_def offset_def)
    moreover have "\<not> unwritten states cb"
      using Some by (simp add: unwritten_def)
    ultimately show ?thesis
      by (intro exI [of _ "ucast offset # new"]) simp
  qed
qed

lemma segment_self: "segment hs a a = []"
  by (simp add: segment_def)

lemma segment_Suc:
  assumes "a \<le> i" "i < length hs"
  shows "segment hs a (Suc i) = segment hs a i @ [hs ! i]"
proof -
  from assms have s: "Suc i - a = Suc (i - a)" by simp
  from assms have l: "i - a < length (drop a hs)" by simp
  from assms have "drop a hs ! (i - a) = hs ! i" by simp
  with take_Suc_conv_app_nth [OF l] show ?thesis
    by (simp add: segment_def s)
qed

lemma length_segment: "b \<le> length hs \<Longrightarrow> length (segment hs a b) = b - a"
  by (simp add: segment_def)

lemma segment_nth: "k < b - a \<Longrightarrow> b \<le> length hs \<Longrightarrow> segment hs a b ! k = hs ! (a + k)"
  by (simp add: segment_def)

lemma natives_length:
  "None \<notin> set seg \<Longrightarrow> length (concat (map nativeSetOf seg)) = length seg"
proof (induction seg)
  case Nil
  show ?case by simp
next
  case (Cons h seg)
  then obtain x where "h = Some x" by (cases h) auto
  with Cons show ?case
    by (cases x) (simp_all add: nativeSetOf_def)
qed

lemma bindInvD:
  assumes "bindInv ext states hs i st"
  shows "nextDescriptorSetToBind st \<le> i" and "i \<le> length hs"
    and "None \<notin> set (segment hs (nextDescriptorSetToBind st) i)"
    and "descriptorSets st = concat (map nativeSetOf (segment hs (nextDescriptorSetToBind st) i))"
    and "list_all2 (claimedOffset states)
        (concat (map volatileBuffersOf (segment hs (nextDescriptorSetToBind st) i)))
        (dynamicOffsets st)"
    and "nextDescriptorSetToBind st = 0 \<or> hs ! (nextDescriptorSetToBind st - 1) = None"
    and "\<And>c. c \<in> set (bindCalls st) \<Longrightarrow> callOfRun states hs c \<and>
         firstSet c + length (boundSets c) < nextDescriptorSetToBind st"
    and "sorted_wrt (\<lambda>a b. firstSet a < firstSet b) (bindCalls st)"
    and "\<And>j. j < nextDescriptorSetToBind st \<Longrightarrow> hs ! j \<noteq> None \<Longrightarrow>
         \<exists>c\<in>set (bindCalls st). firstSet c \<le> j \<and> j < firstSet c + length (boundSets c)"
    and "errors st = map (unwrittenMessage ext)
          (filter (unwritten states) (concat (map volatileBuffersOf (take i hs))))"
proof -
  note a = assms [unfolded bindInv_def]
  show "nextDescriptorSetToBind st \<le> i" using a by (elim conjE)
  show "i \<le> length hs" using a by (elim conjE)
  show "None \<notin> set (segment hs (nextDescriptorSetToBind st) i)" using a by (elim conjE)
  show "descriptorSets st = concat (map nativeSetOf (segment hs (nextDescriptorSetToBind st) i))"
    using a by (elim conjE)
  show "list_all2 (claimedOffset states)
        (concat (map volatileBuffersOf (segment hs (nextDescriptorSetToBind st) i)))
        (dynamicOffsets st)" using a by (elim conjE)
  show "nextDescriptorSetToBind st = 0 \<or> hs ! (nextDescriptorSetToBind st - 1) = None"
    using a by (elim conjE)
  show "sorted_wrt (\<lambda>a b. firstSet a < firstSet b) (bindCalls st)" using a by (elim conjE)
  show "errors st = map (unwrittenMessage ext)
          (filter (unwritten states) (concat (map volatileBuffersOf (take i hs))))"
    using a by (elim conjE)
  from a have c: "\<forall>c\<in>set (bindCalls st). callOfRun states hs c \<and>
         firstSet c + length (boundSets c) < nextDescriptorSetToBind st" by (elim conjE)
  show "callOfRun states hs c \<and>
         firstSet c + length (boundSets c) < nextDescriptorSetToBind st"
    if "c \<in> set (bindCalls st)" for c
    using c that by (rule bspec)
  from a have j: "\<forall>j<nextDescriptorSetToBind st. hs ! j \<noteq> None \<longrightarrow>
         (\<exists>c\<in>set (bindCalls st). firstSet c \<le> j \<and> j < firstSet c + length (boundSets c))"
    by (elim conjE)
  show "\<exists>c\<in>set (bindCalls st). firstSet c \<le> j \<and> j < firstSet c + length (boundSets c)"
    if "j < nextDescriptorSetToBind st" "hs ! j \<noteq> None" for j
    using j that by simp
qed

lemma bindInvI:
  assumes "nextDescriptorSetToBind st \<le> i" and "i \<le> length hs"
    and "None \<notin> set (segment hs (nextDescriptorSetToBind st) i)"
    and "descriptorSets st = concat (map nativeSetOf (segment hs (nextDescriptorSetToBind st) i))"
    and "list_all2 (claimedOffset states)
        (concat (map volatileBuffersOf (segment hs (nextDescriptorSetToBind st) i)))
        (dynamicOffsets st)"
    and "nextDescriptorSetToBind st = 0 \<or> hs ! (nextDescriptorSetToBind st - 1) = None"
    and "\<And>c. c \<in> set (bindCalls st) \<Longrightarrow> callOfRun states hs c \<and>
         firstSet c + length (boundSets c) < nextDescriptorSetToBind st"
    and "sorted_wrt (\<lambda>a b. firstSet a < firstSet b) (bindCalls st)"
    and "\<And>j. j < nextDescriptorSetToBind st \<Longrightarrow> hs ! j \<noteq> None \<Longrightarrow>
         \<exists>c\<in>set (bindCalls st). firstSet c \<le> j \<and> j < firstSet c + length (boundSets c)"
    and "errors st = map (unwrittenMessage ext)
          (filter (unwritten states) (concat (map volatileBuffersOf (take i hs))))"
  shows "bindInv ext states hs i st"
  unfolding bindInv_def
  by (intro conjI ballI allI impI assms)

lemma bindInv_pending_length:
  assumes "bindInv ext states hs i st"
  shows "length (descriptorSets st) = i - nextDescriptorSetToBind st"
  using bindInvD(2,3,4) [OF assms] by (simp add: natives_length length_segment)

lemma take_Suc_hs: "i < length hs \<Longrightarrow> take (Suc i) hs = take i hs @ [hs ! i]"
  by (rule take_Suc_conv_app_nth)

lemma bindHandle_concrete_inv:
  assumes inv: "bindInv ext states hs i st" and i: "i < length hs"
    and h: "hs ! i = Some x"
    and st': "nextDescriptorSetToBind st' = nextDescriptorSetToBind st"
      "bindCalls st' = bindCalls st"
      "descriptorSets st' = descriptorSets st @ nativeSetOf (Some x)"
      "dynamicOffsets st' = dynamicOffsets st @ new"
      "list_all2 (claimedOffset states) (volatileBuffersOf (Some x)) new"
      "errors st' = errors st @
         map (unwrittenMessage ext) (filter (unwritten states) (volatileBuffersOf (Some x)))"
  shows "bindInv ext states hs (Suc i) st'"
proof (rule bindInvI)
  note d = bindInvD [OF inv]
  have seg: "segment hs (nextDescriptorSetToBind st') (Suc i) =
      segment hs (nextDescriptorSetToBind st) i @ [Some x]"
    using segment_Suc [OF d(1) i] h by (simp add: st'(1))
  show "nextDescriptorSetToBind st' \<le> Suc i" using d(1) by (simp add: st'(1))
  show "Suc i \<le> length hs" using i by simp
  show "None \<notin> set (segment hs (nextDescriptorSetToBind st') (Suc i))"
    using d(3) by (simp add: seg)
  show "descriptorSets st' =
      concat (map nativeSetOf (segment hs (nextDescriptorSetToBind st') (Suc i)))"
    by (simp add: seg st'(3) d(4))
  show "list_all2 (claimedOffset states)
        (concat (map volatileBuffersOf (segment hs (nextDescriptorSetToBind st') (Suc i))))
        (dynamicOffsets st')"
    using d(5) st'(5) by (simp add: seg st'(4) list_all2_appendI)
  show "nextDescriptorSetToBind st' = 0 \<or> hs ! (nextDescriptorSetToBind st' - 1) = None"
    using d(6) by (simp add: st'(1))
  show "callOfRun states hs c \<and> firstSet c + length (boundSets c) < nextDescriptorSetToBind st'"
    if "c \<in> set (bindCalls st')" for c
    using d(7) [of c] that by (simp add: st'(1,2))
  show "sorted_wrt (\<lambda>a b. firstSet a < firstSet b) (bindCalls st')"
    using d(8) by (simp add: st'(2))
  show "\<exists>c\<in>set (bindCalls st'). firstSet c \<le> j \<and> j < firstSet c + length (boundSets c)"
    if "j < nextDescriptorSetToBind st'" "hs ! j \<noteq> None" for j
    using d(9) [of j] that by (simp add: st'(1,2))
  show "errors st' = map (unwrittenMessage ext)
          (filter (unwritten states) (concat (map volatileBuffersOf (take (Suc i) hs))))"
    by (simp add: take_Suc_hs [OF i] h st'(6) d(10))
qed

lemma bindHandle_hole_inv:
  assumes inv: "bindInv ext states hs i st" and i: "i < length hs"
    and h: "hs ! i = None"
  shows "bindInv ext states hs (Suc i)
           ((flushDescriptorSets bp pl st)\<lparr>nextDescriptorSetToBind := i + 1\<rparr>)"
proof -
  note d = bindInvD [OF inv]
  note len = bindInv_pending_length [OF inv]
  define st' where "st' = (flushDescriptorSets bp pl st)\<lparr>nextDescriptorSetToBind := i + 1\<rparr>"
  have nx: "nextDescriptorSetToBind st' = Suc i" by (simp add: st'_def)
  have pend: "descriptorSets st' = []" "dynamicOffsets st' = []"
  proof -
    show "descriptorSets st' = []" by (simp add: st'_def flushDescriptorSets_def)
    show "dynamicOffsets st' = []"
    proof (cases "descriptorSets st = []")
      case True
      then have "length (descriptorSets st) = 0" by simp
      with len d(1) have "nextDescriptorSetToBind st = i" by simp
      with d(5) have "dynamicOffsets st = []" by (simp add: segment_self)
      with True show ?thesis by (simp add: st'_def flushDescriptorSets_def)
    next
      case False
      then show ?thesis by (simp add: st'_def flushDescriptorSets_def)
    qed
  qed
  have errs: "errors st' = errors st" by (simp add: st'_def flushDescriptorSets_def)
  define c where "c = \<lparr>callBindPoint = bp, callLayout = pl,
      firstSet = nextDescriptorSetToBind st, boundSets = descriptorSets st,
      boundDynamicOffsets = dynamicOffsets st\<rparr>"
  have calls: "bindCalls st' = (if descriptorSets st \<noteq> [] then bindCalls st @ [c] else bindCalls st)"
    by (simp add: st'_def flushDescriptorSets_def c_def)
  have cOK: "callOfRun states hs c \<and> firstSet c + length (boundSets c) = i"
    if ne: "descriptorSets st \<noteq> []"
  proof -
    from ne have "0 < length (descriptorSets st)" by simp
    with len have pos: "0 < i - nextDescriptorSetToBind st" by simp
    have e: "nextDescriptorSetToBind st + (i - nextDescriptorSetToBind st) = i"
      using d(1) by simp
    have conc: "hs ! (nextDescriptorSetToBind st + k) \<noteq> None"
      if k: "k < i - nextDescriptorSetToBind st" for k
    proof -
      have "segment hs (nextDescriptorSetToBind st) i ! k = hs ! (nextDescriptorSetToBind st + k)"
        using k d(2) by (rule segment_nth)
      moreover have "segment hs (nextDescriptorSetToBind st) i ! k
          \<in> set (segment hs (nextDescriptorSetToBind st) i)"
        using k d(2) by (simp add: length_segment)
      ultimately show ?thesis using d(3) by metis
    qed
    have mr: "maximalRun hs (nextDescriptorSetToBind st) (i - nextDescriptorSetToBind st)"
      unfolding maximalRun_def e using pos i conc d(6) h by simp
    have fc: "firstSet c = nextDescriptorSetToBind st" "boundSets c = descriptorSets st"
      "boundDynamicOffsets c = dynamicOffsets st"
      by (simp_all add: c_def)
    have lc: "length (boundSets c) = i - nextDescriptorSetToBind st"
      by (simp only: fc(2) len)
    have en: "firstSet c + length (boundSets c) = i"
      by (simp only: fc(1) lc e)
    have "callOfRun states hs c"
      unfolding callOfRun_def en
    proof (intro conjI)
      show "maximalRun hs (firstSet c) (length (boundSets c))"
        using mr by (simp only: lc fc(1))
      show "boundSets c = concat (map nativeSetOf (segment hs (firstSet c) i))"
        using d(4) by (simp only: fc)
      show "list_all2 (claimedOffset states)
          (concat (map volatileBuffersOf (segment hs (firstSet c) i))) (boundDynamicOffsets c)"
        using d(5) by (simp only: fc)
    qed
    with en show ?thesis by (rule conjI [rotated])
  qed
  have "bindInv ext states hs (Suc i) st'"
  proof (rule bindInvI)
    show "nextDescriptorSetToBind st' \<le> Suc i" by (simp add: nx)
    show "Suc i \<le> length hs" using i by simp
    show "None \<notin> set (segment hs (nextDescriptorSetToBind st') (Suc i))"
      by (simp add: nx segment_self)
    show "descriptorSets st' =
        concat (map nativeSetOf (segment hs (nextDescriptorSetToBind st') (Suc i)))"
      by (simp add: nx segment_self pend)
    show "list_all2 (claimedOffset states)
        (concat (map volatileBuffersOf (segment hs (nextDescriptorSetToBind st') (Suc i))))
        (dynamicOffsets st')"
      by (simp add: nx segment_self pend)
    show "nextDescriptorSetToBind st' = 0 \<or> hs ! (nextDescriptorSetToBind st' - 1) = None"
      by (simp add: nx h)
    show "callOfRun states hs c' \<and>
         firstSet c' + length (boundSets c') < nextDescriptorSetToBind st'"
      if c': "c' \<in> set (bindCalls st')" for c'
    proof (cases "c' \<in> set (bindCalls st)")
      case True
      from d(7) [OF True] d(1) show ?thesis by (simp add: nx)
    next
      case False
      with c' calls have "descriptorSets st \<noteq> []" "c' = c" by (auto split: if_splits)
      with cOK show ?thesis by (simp add: nx)
    qed
    show "sorted_wrt (\<lambda>a b. firstSet a < firstSet b) (bindCalls st')"
    proof (cases "descriptorSets st = []")
      case True
      with d(8) calls show ?thesis by simp
    next
      case False
      have "firstSet a < firstSet c" if "a \<in> set (bindCalls st)" for a
        using d(7) [OF that] by (simp add: c_def)
      with d(8) False calls show ?thesis by (simp add: sorted_wrt_append)
    qed
    show "\<exists>c\<in>set (bindCalls st'). firstSet c \<le> j \<and> j < firstSet c + length (boundSets c)"
      if j: "j < nextDescriptorSetToBind st'" "hs ! j \<noteq> None" for j
    proof (cases "j < nextDescriptorSetToBind st")
      case True
      from d(9) [OF True j(2)] calls show ?thesis by auto
    next
      case False
      from j h have "j < i" by (cases "j = i") (simp_all add: nx)
      with False have "0 < i - nextDescriptorSetToBind st" by simp
      with len have "0 < length (descriptorSets st)" by simp
      then have ne: "descriptorSets st \<noteq> []" by simp
      from cOK [OF ne] False \<open>j < i\<close> have "firstSet c \<le> j \<and> j < firstSet c + length (boundSets c)"
        by (simp add: c_def)
      moreover from ne calls have "c \<in> set (bindCalls st')" by simp
      ultimately show ?thesis by blast
    qed
    show "errors st' = map (unwrittenMessage ext)
          (filter (unwritten states) (concat (map volatileBuffersOf (take (Suc i) hs))))"
      by (simp add: take_Suc_hs [OF i] h errs d(10) volatileBuffersOf_def)
  qed
  then show ?thesis by (simp add: st'_def)
qed

lemma bindHandle_inv:
  assumes inv: "bindInv ext states hs i st" and i: "i < length hs"
    and run: "bindHandle ext cap states bp pl i (hs ! i) st = Inr st'"
  shows "bindInv ext states hs (Suc i) st'"
proof (cases "hs ! i")
  case None
  with run have "st' = (flushDescriptorSets bp pl st)\<lparr>nextDescriptorSetToBind := i + 1\<rparr>"
    by (simp add: bindHandle_def)
  with bindHandle_hole_inv [OF inv i None] show ?thesis by simp
next
  case (Some x)
  show ?thesis
  proof (cases x)
    case (BindingSetObject bs)
    with run Some obtain offs errs where
      a: "appendDynamicOffsets ext (c_MaxVolatileConstantBuffers cap) states
            (volatileConstantBuffers bs) (dynamicOffsets st, errors st) = Inr (offs, errs)"
      and st': "st' = st\<lparr>descriptorSets := descriptorSets st @ [setDescriptorSet bs],
                        dynamicOffsets := offs, errors := errs,
                        referencedResources :=
                          (if trackLiveness (setDesc bs)
                           then referencedResources st @ [BindingSetObject bs]
                           else referencedResources st)\<rparr>"
      by (auto simp: bindHandle_def bindR_def split: sum.splits if_splits)
    from appendDynamicOffsets_Inr [OF a] obtain new where
      new: "offs = dynamicOffsets st @ new"
        "list_all2 (claimedOffset states) (volatileConstantBuffers bs) new"
        "errs = errors st @ map (unwrittenMessage ext)
           (filter (unwritten states) (volatileConstantBuffers bs))"
      by blast
    show ?thesis
    proof (rule bindHandle_concrete_inv [OF inv i Some])
      show "nextDescriptorSetToBind st' = nextDescriptorSetToBind st" by (simp add: st')
      show "bindCalls st' = bindCalls st" by (simp add: st')
      show "descriptorSets st' = descriptorSets st @ nativeSetOf (Some x)"
        by (simp add: st' BindingSetObject nativeSetOf_def)
      show "dynamicOffsets st' = dynamicOffsets st @ new" by (simp add: st' new(1))
      show "list_all2 (claimedOffset states) (volatileBuffersOf (Some x)) new"
        using new(2) by (simp add: BindingSetObject volatileBuffersOf_def)
      show "errors st' = errors st @
         map (unwrittenMessage ext) (filter (unwritten states) (volatileBuffersOf (Some x)))"
        by (simp add: st' new(3) BindingSetObject volatileBuffersOf_def)
    qed
  next
    case (DescriptorTableObject t)
    with run Some have st':
      "st' = st\<lparr>descriptorSets := descriptorSets st @ [tableDescriptorSet t]\<rparr>"
      by (simp add: bindHandle_def split: if_splits)
    show ?thesis
    proof (rule bindHandle_concrete_inv [OF inv i Some, where new = "[]"])
      show "nextDescriptorSetToBind st' = nextDescriptorSetToBind st" by (simp add: st')
      show "bindCalls st' = bindCalls st" by (simp add: st')
      show "descriptorSets st' = descriptorSets st @ nativeSetOf (Some x)"
        by (simp add: st' DescriptorTableObject nativeSetOf_def)
      show "dynamicOffsets st' = dynamicOffsets st @ []" by (simp add: st')
      show "list_all2 (claimedOffset states) (volatileBuffersOf (Some x)) []"
        by (simp add: DescriptorTableObject volatileBuffersOf_def)
      show "errors st' = errors st @
         map (unwrittenMessage ext) (filter (unwritten states) (volatileBuffersOf (Some x)))"
        by (simp add: st' DescriptorTableObject volatileBuffersOf_def)
    qed
  qed
qed

lemma positionHandles_length [simp]:
  "length (positionHandles bs im) = numDescriptorSets bs im"
  by (simp add: positionHandles_def numDescriptorSets_def)

lemma positionHandles_nth:
  "i < numDescriptorSets bs im \<Longrightarrow> resolveHandle bs im i = Inr h \<Longrightarrow>
   positionHandles bs im ! i = h"
  by (auto simp: positionHandles_def numDescriptorSets_def resolveHandle_def split: if_splits)

lemma bindLoop_inv:
  assumes "bindLoop ext cap states bp pl bs im [i..<n] st = Inr st'"
    and "bindInv ext states (positionHandles bs im) i st"
    and "n = numDescriptorSets bs im" and "i \<le> n"
  shows "bindInv ext states (positionHandles bs im) n st'"
  using assms
proof (induction "n - i" arbitrary: i st)
  case 0
  then show ?case by simp
next
  case (Suc m)
  then have i: "i < n" by simp
  then have up: "[i..<n] = i # [Suc i..<n]" by (simp add: upt_conv_Cons)
  from Suc.prems(1) obtain h st1 where
    r: "resolveHandle bs im i = Inr h"
    and s: "bindHandle ext cap states bp pl i h st = Inr st1"
    and l: "bindLoop ext cap states bp pl bs im [Suc i..<n] st1 = Inr st'"
    by (auto simp: up bindStep_def bindR_def split: sum.splits)
  from i Suc.prems(3) have i': "i < length (positionHandles bs im)" by simp
  have h: "positionHandles bs im ! i = h"
    using i Suc.prems(3) r by (simp add: positionHandles_nth)
  from s h have "bindHandle ext cap states bp pl i (positionHandles bs im ! i) st = Inr st1"
    by simp
  from bindHandle_inv [OF Suc.prems(2) i' this]
  have inv1: "bindInv ext states (positionHandles bs im) (Suc i) st1" .
  from Suc.hyps(2) have m: "m = n - Suc i" by simp
  from i have le: "Suc i \<le> n" by simp
  show ?case by (rule Suc.hyps(1) [OF m l inv1 Suc.prems(3) le])
qed

lemma bindInv_init:
  "bindInv ext states hs 0
     \<lparr>descriptorSets = [], nextDescriptorSetToBind = 0, dynamicOffsets = [],
      bindCalls = [], errors = [], referencedResources = []\<rparr>"
  by (simp add: bindInv_def segment_self)

lemma pending_call:
  assumes inv: "bindInv ext states hs i st" and ne: "descriptorSets st \<noteq> []"
    and en: "i = length hs \<or> hs ! i = None"
  shows "callOfRun states hs
           \<lparr>callBindPoint = bp, callLayout = pl, firstSet = nextDescriptorSetToBind st,
            boundSets = descriptorSets st, boundDynamicOffsets = dynamicOffsets st\<rparr>"
    and "nextDescriptorSetToBind st + length (descriptorSets st) = i"
proof -
  note d = bindInvD [OF inv]
  note len = bindInv_pending_length [OF inv]
  from ne have "0 < length (descriptorSets st)" by simp
  with len have pos: "0 < i - nextDescriptorSetToBind st" by simp
  have e: "nextDescriptorSetToBind st + (i - nextDescriptorSetToBind st) = i"
    using d(1) by simp
  have conc: "hs ! (nextDescriptorSetToBind st + k) \<noteq> None"
    if k: "k < i - nextDescriptorSetToBind st" for k
  proof -
    have "segment hs (nextDescriptorSetToBind st) i ! k = hs ! (nextDescriptorSetToBind st + k)"
      using k d(2) by (rule segment_nth)
    moreover have "segment hs (nextDescriptorSetToBind st) i ! k
        \<in> set (segment hs (nextDescriptorSetToBind st) i)"
      using k d(2) by (simp add: length_segment)
    ultimately show ?thesis using d(3) by metis
  qed
  have mr: "maximalRun hs (nextDescriptorSetToBind st) (i - nextDescriptorSetToBind st)"
    unfolding maximalRun_def e using pos d(2) conc d(6) en by simp
  show en': "nextDescriptorSetToBind st + length (descriptorSets st) = i"
    by (simp only: len e)
  show "callOfRun states hs
           \<lparr>callBindPoint = bp, callLayout = pl, firstSet = nextDescriptorSetToBind st,
            boundSets = descriptorSets st, boundDynamicOffsets = dynamicOffsets st\<rparr>"
    unfolding callOfRun_def BindCall.simps en'
  proof (intro conjI)
    show "maximalRun hs (nextDescriptorSetToBind st) (length (descriptorSets st))"
      using mr by (simp only: len)
    show "descriptorSets st = concat (map nativeSetOf (segment hs (nextDescriptorSetToBind st) i))"
      by (rule d(4))
    show "list_all2 (claimedOffset states)
        (concat (map volatileBuffersOf (segment hs (nextDescriptorSetToBind st) i)))
        (dynamicOffsets st)"
      by (rule d(5))
  qed
qed

lemma final_flush:
  fixes bp :: PipelineBindPoint and pl :: VkPipelineLayout
  assumes inv: "bindInv ext states hs (length hs) st"
  defines "out \<equiv> flushDescriptorSets bp pl st"
  shows "\<And>c. c \<in> set (bindCalls out) \<Longrightarrow> callOfRun states hs c"
    and "sorted_wrt (\<lambda>a b. firstSet a < firstSet b) (bindCalls out)"
    and "\<And>j. j < length hs \<Longrightarrow> hs ! j \<noteq> None \<Longrightarrow>
         \<exists>c\<in>set (bindCalls out). firstSet c \<le> j \<and> j < firstSet c + length (boundSets c)"
    and "errors out = map (unwrittenMessage ext)
          (filter (unwritten states) (concat (map volatileBuffersOf hs)))"
proof -
  note d = bindInvD [OF inv]
  note len = bindInv_pending_length [OF inv]
  define c where "c = \<lparr>callBindPoint = bp, callLayout = pl,
      firstSet = nextDescriptorSetToBind st, boundSets = descriptorSets st,
      boundDynamicOffsets = dynamicOffsets st\<rparr>"
  have calls: "bindCalls out = (if descriptorSets st \<noteq> [] then bindCalls st @ [c] else bindCalls st)"
    by (simp add: out_def flushDescriptorSets_def c_def)
  have fc: "firstSet c = nextDescriptorSetToBind st" "boundSets c = descriptorSets st"
    by (simp_all add: c_def)
  have cOK: "callOfRun states hs c" "firstSet c + length (boundSets c) = length hs"
    if ne: "descriptorSets st \<noteq> []"
    using pending_call(1) [OF inv ne, where bp = bp and pl = pl] pending_call(2) [OF inv ne]
    by (simp_all add: c_def)
  show "callOfRun states hs c'" if c': "c' \<in> set (bindCalls out)" for c'
  proof (cases "c' \<in> set (bindCalls st)")
    case True
    from d(7) [OF True] show ?thesis by simp
  next
    case False
    with c' calls have "descriptorSets st \<noteq> []" "c' = c" by (auto split: if_splits)
    with cOK show ?thesis by simp
  qed
  show "sorted_wrt (\<lambda>a b. firstSet a < firstSet b) (bindCalls out)"
  proof (cases "descriptorSets st = []")
    case True
    with d(8) calls show ?thesis by simp
  next
    case False
    have "firstSet a < firstSet c" if "a \<in> set (bindCalls st)" for a
      using d(7) [OF that] by (simp add: fc)
    with d(8) False calls show ?thesis by (simp add: sorted_wrt_append)
  qed
  show "\<exists>c\<in>set (bindCalls out). firstSet c \<le> j \<and> j < firstSet c + length (boundSets c)"
    if j: "j < length hs" "hs ! j \<noteq> None" for j
  proof (cases "j < nextDescriptorSetToBind st")
    case True
    from d(9) [OF True j(2)] calls show ?thesis by auto
  next
    case False
    with j(1) have "0 < length hs - nextDescriptorSetToBind st" by simp
    with len have "0 < length (descriptorSets st)" by simp
    then have ne: "descriptorSets st \<noteq> []" by simp
    from cOK(2) [OF ne] False j(1) have "firstSet c \<le> j \<and> j < firstSet c + length (boundSets c)"
      by (simp add: fc)
    moreover from ne calls have "c \<in> set (bindCalls out)" by simp
    ultimately show ?thesis by blast
  qed
  show "errors out = map (unwrittenMessage ext)
          (filter (unwritten states) (concat (map volatileBuffersOf hs)))"
    using d(10) by (simp add: out_def flushDescriptorSets_def)
qed

lemma bindBindingSets_run:
  assumes run: "bindBindingSets ext cap states bp pl bs im = Inr out"
  shows "\<And>c. c \<in> set (bindCalls out) \<Longrightarrow> callOfRun states (positionHandles bs im) c"
    and "sorted_wrt (\<lambda>a b. firstSet a < firstSet b) (bindCalls out)"
    and "\<And>j. j < numDescriptorSets bs im \<Longrightarrow> positionHandles bs im ! j \<noteq> None \<Longrightarrow>
         \<exists>c\<in>set (bindCalls out). firstSet c \<le> j \<and> j < firstSet c + length (boundSets c)"
    and "errors out = map (unwrittenMessage ext)
          (filter (unwritten states) (concat (map volatileBuffersOf (positionHandles bs im))))"
proof -
  define n where "n = numDescriptorSets bs im"
  from run obtain st where
    l: "bindLoop ext cap states bp pl bs im [0..<n]
          \<lparr>descriptorSets = [], nextDescriptorSetToBind = 0, dynamicOffsets = [],
           bindCalls = [], errors = [], referencedResources = []\<rparr> = Inr st"
    and out: "out = flushDescriptorSets bp pl st"
    by (auto simp: bindBindingSets_def bindR_def n_def split: sum.splits)
  have "bindInv ext states (positionHandles bs im) n st"
    by (rule bindLoop_inv [OF l bindInv_init n_def]) simp
  then have inv: "bindInv ext states (positionHandles bs im) (length (positionHandles bs im)) st"
    by (simp add: n_def)
  note f = final_flush [OF inv, where bp = bp and pl = pl, folded out]
  show "callOfRun states (positionHandles bs im) c" if "c \<in> set (bindCalls out)" for c
    using that by (rule f(1))
  show "sorted_wrt (\<lambda>a b. firstSet a < firstSet b) (bindCalls out)" by (rule f(2))
  show "\<exists>c\<in>set (bindCalls out). firstSet c \<le> j \<and> j < firstSet c + length (boundSets c)"
    if "j < numDescriptorSets bs im" "positionHandles bs im ! j \<noteq> None" for j
    using f(3) [of j] that by simp
  show "errors out = map (unwrittenMessage ext)
          (filter (unwritten states) (concat (map volatileBuffersOf (positionHandles bs im))))"
    by (rule f(4))
qed

lemma appendDynamicOffsets_completes:
  "\<forall>cb\<in>set cbs. offsetFits states cb \<Longrightarrow> length (fst acc) + length cbs \<le> mx \<Longrightarrow>
   \<exists>r. appendDynamicOffsets ext mx states cbs acc = Inr r"
proof (induction cbs arbitrary: acc)
  case Nil
  show ?case by simp
next
  case (Cons cb cbs)
  obtain offs errs where acc: "acc = (offs, errs)" by (cases acc)
  from Cons.prems have fit: "offsetFits states cb" and rest: "\<forall>cb\<in>set cbs. offsetFits states cb"
    and room: "length offs < mx"
    by (simp_all add: acc)
  have step: "\<exists>r. appendDynamicOffsets ext mx states cbs (offs @ [x], e) = Inr r" for x e
    by (rule Cons.IH [OF rest]) (use Cons.prems(2) in \<open>simp add: acc\<close>)
  show ?case
  proof (cases "states (fst cb)")
    case None
    with step room show ?thesis by (simp add: acc)
  next
    case (Some found)
    with fit have "(ucast (latestVersion found) :: u64) * bufferByteSize (bufferDesc (snd cb))
        < 0xffffffff"
      by (simp add: offsetFits_def)
    with Some step room show ?thesis by (simp add: acc Let_def)
  qed
qed

lemma buffers_of_segment:
  "length (concat (map volatileBuffersOf (segment hs a b)))
     \<le> length (concat (map volatileBuffersOf hs))"
proof -
  have tk: "length (concat (map volatileBuffersOf (take n xs)))
      \<le> length (concat (map volatileBuffersOf xs))" for n and xs :: "IBindingSet option list"
  proof -
    have "length (concat (map volatileBuffersOf (take n xs @ drop n xs))) =
        length (concat (map volatileBuffersOf (take n xs))) +
        length (concat (map volatileBuffersOf (drop n xs)))"
      by (simp only: map_append concat_append length_append)
    then show ?thesis by simp
  qed
  have dr: "length (concat (map volatileBuffersOf (drop n xs)))
      \<le> length (concat (map volatileBuffersOf xs))" for n and xs :: "IBindingSet option list"
  proof -
    have "length (concat (map volatileBuffersOf (take n xs @ drop n xs))) =
        length (concat (map volatileBuffersOf (take n xs))) +
        length (concat (map volatileBuffersOf (drop n xs)))"
      by (simp only: map_append concat_append length_append)
    then show ?thesis by simp
  qed
  have "length (concat (map volatileBuffersOf (segment hs a b)))
      \<le> length (concat (map volatileBuffersOf (drop a hs)))"
    unfolding segment_def by (rule tk)
  also have "\<dots> \<le> length (concat (map volatileBuffersOf hs))" by (rule dr)
  finally show ?thesis .
qed

lemma bindHandle_completes:
  assumes inv: "bindInv ext states hs i st" and i: "i < length hs"
    and fit: "\<forall>cb\<in>set (volatileBuffersOf (hs ! i)). offsetFits states cb"
    and room: "withinCapacity cap hs"
  shows "\<exists>st'. bindHandle ext cap states bp pl i (hs ! i) st = Inr st'"
proof (cases "hs ! i")
  case None
  then show ?thesis by (simp add: bindHandle_def)
next
  case (Some x)
  note d = bindInvD [OF inv]
  have "length (descriptorSets st) = i - nextDescriptorSetToBind st"
    by (rule bindInv_pending_length [OF inv])
  with i room have sets: "length (descriptorSets st) < c_MaxBindingLayouts cap"
    unfolding withinCapacity_def by linarith
  show ?thesis
  proof (cases x)
    case (BindingSetObject b)
    with Some fit have f: "\<forall>cb\<in>set (volatileConstantBuffers b). offsetFits states cb"
      by (simp add: volatileBuffersOf_def)
    have seg: "segment hs (nextDescriptorSetToBind st) (Suc i) =
        segment hs (nextDescriptorSetToBind st) i @ [hs ! i]"
      by (rule segment_Suc [OF d(1) i])
    have "length (dynamicOffsets st) =
        length (concat (map volatileBuffersOf (segment hs (nextDescriptorSetToBind st) i)))"
      using list_all2_lengthD [OF d(5)] by simp
    then have "length (dynamicOffsets st) + length (volatileConstantBuffers b) =
        length (concat (map volatileBuffersOf (segment hs (nextDescriptorSetToBind st) (Suc i))))"
      by (simp add: seg Some BindingSetObject volatileBuffersOf_def)
    also have "\<dots> \<le> length (concat (map volatileBuffersOf hs))"
      by (rule buffers_of_segment)
    also have "\<dots> \<le> c_MaxVolatileConstantBuffers cap"
      using room by (simp add: withinCapacity_def)
    finally have "length (fst (dynamicOffsets st, errors st)) + length (volatileConstantBuffers b)
        \<le> c_MaxVolatileConstantBuffers cap" by simp
    from appendDynamicOffsets_completes [OF f this]
    obtain r where "appendDynamicOffsets ext (c_MaxVolatileConstantBuffers cap) states
        (volatileConstantBuffers b) (dynamicOffsets st, errors st) = Inr r" by blast
    with Some BindingSetObject sets show ?thesis
      by (simp add: bindHandle_def bindR_def split_def)
  next
    case (DescriptorTableObject t)
    with Some sets show ?thesis by (simp add: bindHandle_def)
  qed
qed

lemma resolveHandle_in_range:
  assumes "indexMapInRange bs im" and "i < numDescriptorSets bs im"
  shows "\<exists>h. resolveHandle bs im i = Inr h"
proof (cases "im = []")
  case True
  with assms(2) show ?thesis by (simp add: resolveHandle_def numDescriptorSets_def)
next
  case False
  with assms(2) have i: "i < length im" by (simp add: numDescriptorSets_def)
  then have "im ! i \<in> set im" by simp
  with assms(1) have "im ! i = 0xffffffff \<or> unat (im ! i) < length bs"
    unfolding indexMapInRange_def by blast
  with False i show ?thesis by (auto simp: resolveHandle_def)
qed

lemma bindLoop_completes:
  assumes "bindInv ext states (positionHandles bs im) i st"
    and "n = numDescriptorSets bs im" and "i \<le> n"
    and range: "indexMapInRange bs im"
    and fits: "\<forall>h\<in>set (positionHandles bs im). \<forall>cb\<in>set (volatileBuffersOf h). offsetFits states cb"
    and room: "withinCapacity cap (positionHandles bs im)"
  shows "\<exists>st'. bindLoop ext cap states bp pl bs im [i..<n] st = Inr st'"
  using assms(1,2,3)
proof (induction "n - i" arbitrary: i st)
  case 0
  then show ?case by simp
next
  case (Suc m)
  then have i: "i < n" by simp
  then have up: "[i..<n] = i # [Suc i..<n]" by (simp add: upt_conv_Cons)
  from i Suc.prems(2) have i': "i < length (positionHandles bs im)" by simp
  from i Suc.prems(2) have i'': "i < numDescriptorSets bs im" by simp
  from resolveHandle_in_range [OF range i''] obtain h where h: "resolveHandle bs im i = Inr h"
    by blast
  from positionHandles_nth [OF i'' h] have hh: "positionHandles bs im ! i = h" .
  from i' have "positionHandles bs im ! i \<in> set (positionHandles bs im)" by (rule nth_mem)
  with fits have f: "\<forall>cb\<in>set (volatileBuffersOf (positionHandles bs im ! i)). offsetFits states cb"
    by blast
  from bindHandle_completes [OF Suc.prems(1) i' f room, of bp pl] obtain st1 where
    s: "bindHandle ext cap states bp pl i (positionHandles bs im ! i) st = Inr st1" by blast
  from bindHandle_inv [OF Suc.prems(1) i' s]
  have inv1: "bindInv ext states (positionHandles bs im) (Suc i) st1" .
  from Suc.hyps(2) have m: "m = n - Suc i" by simp
  from i have le: "Suc i \<le> n" by simp
  from Suc.hyps(1) [OF m inv1 Suc.prems(2) le] obtain st' where
    "bindLoop ext cap states bp pl bs im [Suc i..<n] st1 = Inr st'" by blast
  with h s hh show ?case by (simp add: up bindStep_def bindR_def)
qed

lemma bindBindingSets_completes:
  assumes "indexMapInRange bs im"
    and "\<forall>h\<in>set (positionHandles bs im). \<forall>cb\<in>set (volatileBuffersOf h). offsetFits states cb"
    and "withinCapacity cap (positionHandles bs im)"
  shows "\<exists>out. bindBindingSets ext cap states bp pl bs im = Inr out"
proof -
  have "\<exists>st'. bindLoop ext cap states bp pl bs im [0..<numDescriptorSets bs im]
          \<lparr>descriptorSets = [], nextDescriptorSetToBind = 0, dynamicOffsets = [],
           bindCalls = [], errors = [], referencedResources = []\<rparr> = Inr st'"
    by (rule bindLoop_completes [OF bindInv_init refl _ assms]) simp
  then show ?thesis by (auto simp: bindBindingSets_def bindR_def)
qed

lemma maximalRun_unique:
  assumes a: "maximalRun hs f len" and b: "maximalRun hs f' len'"
    and c: "f' \<le> f" "f < f' + len'"
  shows "f = f' \<and> len = len'"
proof -
  have f: "f = f'"
  proof (rule ccontr)
    assume "f \<noteq> f'"
    with c have lt: "f' < f" by simp
    with a have "hs ! (f - 1) = None" by (simp add: maximalRun_def)
    moreover from lt c(2) have "f - 1 - f' < len'" by simp
    with b have "hs ! (f' + (f - 1 - f')) \<noteq> None" unfolding maximalRun_def by blast
    with lt have "hs ! (f - 1) \<noteq> None" by simp
    ultimately show False by simp
  qed
  have "len = len'"
  proof (rule ccontr)
    assume ne: "len \<noteq> len'"
    show False
    proof (cases "len < len'")
      case True
      with b have "hs ! (f' + len) \<noteq> None" unfolding maximalRun_def by blast
      moreover from True b have "f' + len < length hs" by (simp add: maximalRun_def)
      with a f have "hs ! (f' + len) = None" by (simp add: maximalRun_def)
      ultimately show False by simp
    next
      case False
      with ne have lt: "len' < len" by simp
      with a have "hs ! (f + len') \<noteq> None" unfolding maximalRun_def by blast
      moreover from lt a have "f + len' < length hs" by (simp add: maximalRun_def)
      with b f have "hs ! (f + len') = None" by (simp add: maximalRun_def)
      ultimately show False by simp
    qed
  qed
  with f show ?thesis by simp
qed

lemma one_call_per_run:
  assumes runs: "\<And>c. c \<in> set cs \<Longrightarrow> maximalRun hs (firstSet c) (length (boundSets c))"
    and sorted: "sorted_wrt (\<lambda>a b. firstSet a < firstSet b) cs"
    and cover: "\<And>j. j < length hs \<Longrightarrow> hs ! j \<noteq> None \<Longrightarrow>
         \<exists>c\<in>set cs. firstSet c \<le> j \<and> j < firstSet c + length (boundSets c)"
    and run: "maximalRun hs f len"
  shows "length (filter (\<lambda>c. firstSet c = f \<and> length (boundSets c) = len) cs) = 1"
proof -
  from run have "f < length hs" "hs ! f \<noteq> None"
    unfolding maximalRun_def by (simp, metis add.right_neutral)
  from cover [OF this] obtain c where
    c: "c \<in> set cs" "firstSet c \<le> f" "f < firstSet c + length (boundSets c)"
    by blast
  from maximalRun_unique [OF run runs [OF c(1)] c(2,3)]
  have fc: "firstSet c = f" "length (boundSets c) = len" by simp_all
  have same: "(firstSet c' = f \<and> length (boundSets c') = len) = (firstSet c' = firstSet c)"
    if c': "c' \<in> set cs" for c'
  proof (cases "firstSet c' = f")
    case True
    from runs [OF c'] have r: "maximalRun hs f (length (boundSets c'))" by (simp add: True)
    then have "0 < length (boundSets c')" by (simp add: maximalRun_def)
    then have "f < f + length (boundSets c')" by simp
    from maximalRun_unique [OF run r _ this] True fc show ?thesis by simp
  next
    case False
    with fc show ?thesis by simp
  qed
  have "sorted_wrt (<) (map firstSet cs)"
    using sorted by (simp add: sorted_wrt_map)
  then have "distinct (map firstSet cs)"
    by (simp add: strict_sorted_iff)
  from distinct_filter_once [OF this c(1)]
  have "length (filter (\<lambda>c'. firstSet c' = firstSet c) cs) = 1" .
  moreover have "filter (\<lambda>c. firstSet c = f \<and> length (boundSets c) = len) cs =
      filter (\<lambda>c'. firstSet c' = firstSet c) cs"
    by (rule filter_cong) (simp_all add: same)
  ultimately show ?thesis by simp
qed

lemma example_direct_run:
  "bindBindingSets exampleExternals exampleCapacities (\<lambda>p. None) eGraphics 9
       [Some exampleSetS0, None, Some exampleSetS2] [] =
     Inr \<lparr>descriptorSets = [], nextDescriptorSetToBind = 2, dynamicOffsets = [],
          bindCalls =
            [\<lparr>callBindPoint = eGraphics, callLayout = 9, firstSet = 0, boundSets = [100],
              boundDynamicOffsets = []\<rparr>,
             \<lparr>callBindPoint = eGraphics, callLayout = 9, firstSet = 2, boundSets = [102],
              boundDynamicOffsets = []\<rparr>],
          errors = [], referencedResources = [exampleSetS0]\<rparr>"
  by (simp add: bindBindingSets_def numDescriptorSets_def bindStep_def resolveHandle_def
      bindHandle_def bindR_def flushDescriptorSets_def exampleSetS0_def exampleSetS2_def
      exampleCapacities_def)

lemma example_mapped_run:
  "bindBindingSets exampleExternals exampleCapacities (\<lambda>p. None) eGraphics 9
       [Some exampleSetS0, Some exampleSetS2] [0, 0xFFFFFFFF, 1] =
     Inr \<lparr>descriptorSets = [], nextDescriptorSetToBind = 2, dynamicOffsets = [],
          bindCalls =
            [\<lparr>callBindPoint = eGraphics, callLayout = 9, firstSet = 0, boundSets = [100],
              boundDynamicOffsets = []\<rparr>,
             \<lparr>callBindPoint = eGraphics, callLayout = 9, firstSet = 2, boundSets = [102],
              boundDynamicOffsets = []\<rparr>],
          errors = [], referencedResources = [exampleSetS0]\<rparr>"
  by (simp add: bindBindingSets_def numDescriptorSets_def bindStep_def resolveHandle_def
      bindHandle_def bindR_def flushDescriptorSets_def exampleSetS0_def exampleSetS2_def
      exampleCapacities_def)

lemma full_vectors_trip_assertion:
  "bindBindingSets exampleExternals
       \<lparr>c_MaxBindingLayouts = 1, c_MaxVolatileConstantBuffers = 32\<rparr>
       (\<lambda>p. None) eGraphics 9 [Some exampleSetS0, Some exampleSetS2] [] = Inl AssertionFailed"
  "bindBindingSets exampleExternals
       \<lparr>c_MaxBindingLayouts = 8, c_MaxVolatileConstantBuffers = 1\<rparr>
       exampleVolatileStates eCompute 9 [Some exampleSetS1] [] = Inl AssertionFailed"
  by (simp_all add: bindBindingSets_def numDescriptorSets_def bindStep_def resolveHandle_def
      bindHandle_def bindR_def flushDescriptorSets_def exampleSetS0_def exampleSetS1_def
      exampleSetS2_def exampleVolatileA_def exampleVolatileB_def exampleVolatileStates_def
      Let_def)

lemma example_positions:
  "positionHandles [Some exampleSetS0, None, Some exampleSetS2] [] =
     [Some exampleSetS0, None, Some exampleSetS2]"
  "positionHandles [Some exampleSetS0, Some exampleSetS2] [0, 0xFFFFFFFF, 1] =
     [Some exampleSetS0, None, Some exampleSetS2]"
  "positionHandles [Some exampleSetS1] [] = [Some exampleSetS1]"
  "positionHandles [Some exampleSetS1, Some exampleSetS0] [1, 0xFFFFFFFF, 0] =
     [Some exampleSetS0, None, Some exampleSetS1]"
  by (simp_all add: positionHandles_def)

lemma example_buffers:
  "volatileBuffersOf (Some exampleSetS0) = []" "volatileBuffersOf (Some exampleSetS2) = []"
  "volatileBuffersOf (Some exampleSetS1) = [exampleVolatileA, exampleVolatileB]"
  "volatileBuffersOf None = []"
  by (simp_all add: volatileBuffersOf_def exampleSetS0_def exampleSetS1_def exampleSetS2_def)

text \<open>
  C3. For every binding-set vector and (possibly empty) index map: bindBindingSets
  completes whenever the index map stays within the vector, the offsets pass the source's
  assertion and the positions and volatile constant buffers fit the capacities of the
  vectors of descriptor sets and dynamic offsets; and whenever it completes its native
  bind calls are, in increasing order of firstSet, exactly one per maximal contiguous run
  of concrete handles, with firstSet the run's starting position, count the run's length
  and the descriptor sets of the run's handles in order; so no call spans a hole. The
  positions and their handles are those of the specification: the vector itself in direct
  mode, one position per entry of the index map otherwise, a sentinel being a hole. The
  vector [S0, null, S2] without index map gives the two calls {firstSet 0, count 1} and
  {firstSet 2, count 1}, and so does the vector [S0, S2] with the index map
  [0, 0xFFFFFFFF, 1]: see the witness.
\<close>

theorem bind_calls_are_maximal_runs:
  "(indexMapInRange bs im \<and>
    (\<forall>h\<in>set (positionHandles bs im). \<forall>cb\<in>set (volatileBuffersOf h). offsetFits states cb) \<and>
    withinCapacity cap (positionHandles bs im) \<longrightarrow>
      (\<exists>out. bindBindingSets ext cap states bp pl bs im = Inr out)) \<and>
   (\<forall>out. bindBindingSets ext cap states bp pl bs im = Inr out \<longrightarrow>
      (\<forall>c\<in>set (bindCalls out).
         maximalRun (positionHandles bs im) (firstSet c) (length (boundSets c)) \<and>
         boundSets c = concat (map nativeSetOf
           (segment (positionHandles bs im) (firstSet c) (firstSet c + length (boundSets c))))) \<and>
      (\<forall>f len. maximalRun (positionHandles bs im) f len \<longrightarrow>
         length (filter (\<lambda>c. firstSet c = f \<and> length (boundSets c) = len) (bindCalls out)) = 1) \<and>
      sorted_wrt (\<lambda>a b. firstSet a < firstSet b) (bindCalls out))"
proof (intro conjI allI impI ballI)
  assume "indexMapInRange bs im \<and>
    (\<forall>h\<in>set (positionHandles bs im). \<forall>cb\<in>set (volatileBuffersOf h). offsetFits states cb) \<and>
    withinCapacity cap (positionHandles bs im)"
  then show "\<exists>out. bindBindingSets ext cap states bp pl bs im = Inr out"
    using bindBindingSets_completes by blast
next
  fix out c assume run: "bindBindingSets ext cap states bp pl bs im = Inr out"
    and c: "c \<in> set (bindCalls out)"
  from bindBindingSets_run(1) [OF run c]
  show "maximalRun (positionHandles bs im) (firstSet c) (length (boundSets c))"
    "boundSets c = concat (map nativeSetOf
       (segment (positionHandles bs im) (firstSet c) (firstSet c + length (boundSets c))))"
    by (simp_all add: callOfRun_def)
next
  fix out f len assume run: "bindBindingSets ext cap states bp pl bs im = Inr out"
    and r: "maximalRun (positionHandles bs im) f len"
  show "length (filter (\<lambda>c. firstSet c = f \<and> length (boundSets c) = len) (bindCalls out)) = 1"
  proof (rule one_call_per_run [OF _ bindBindingSets_run(2) [OF run] _ r])
    fix c assume "c \<in> set (bindCalls out)"
    from bindBindingSets_run(1) [OF run this]
    show "maximalRun (positionHandles bs im) (firstSet c) (length (boundSets c))"
      by (simp add: callOfRun_def)
  next
    fix j assume "j < length (positionHandles bs im)" "positionHandles bs im ! j \<noteq> None"
    then show "\<exists>c\<in>set (bindCalls out). firstSet c \<le> j \<and> j < firstSet c + length (boundSets c)"
      using bindBindingSets_run(3) [OF run, of j] by simp
  qed
next
  fix out assume run: "bindBindingSets ext cap states bp pl bs im = Inr out"
  show "sorted_wrt (\<lambda>a b. firstSet a < firstSet b) (bindCalls out)"
    by (rule bindBindingSets_run(2) [OF run])
qed

theorem bind_calls_are_maximal_runs_witness:
  "indexMapInRange [Some exampleSetS0, None, Some exampleSetS2] [] \<and>
   withinCapacity exampleCapacities
     (positionHandles [Some exampleSetS0, None, Some exampleSetS2] []) \<and>
   positionHandles [Some exampleSetS0, None, Some exampleSetS2] [] =
     [Some exampleSetS0, None, Some exampleSetS2] \<and>
   maximalRun [Some exampleSetS0, None, Some exampleSetS2] 0 1 \<and>
   maximalRun [Some exampleSetS0, None, Some exampleSetS2] 2 1 \<and>
   (\<exists>out. bindBindingSets exampleExternals exampleCapacities (\<lambda>p. None) eGraphics 9
        [Some exampleSetS0, None, Some exampleSetS2] [] = Inr out \<and>
      map (\<lambda>c. (firstSet c, length (boundSets c))) (bindCalls out) = [(0, 1), (2, 1)] \<and>
      length (filter (\<lambda>c. firstSet c = 0 \<and> length (boundSets c) = 1) (bindCalls out)) = 1 \<and>
      length (filter (\<lambda>c. firstSet c = 2 \<and> length (boundSets c) = 1) (bindCalls out)) = 1) \<and>
   indexMapInRange [Some exampleSetS0, Some exampleSetS2] [0, 0xFFFFFFFF, 1] \<and>
   withinCapacity exampleCapacities
     (positionHandles [Some exampleSetS0, Some exampleSetS2] [0, 0xFFFFFFFF, 1]) \<and>
   positionHandles [Some exampleSetS0, Some exampleSetS2] [0, 0xFFFFFFFF, 1] =
     [Some exampleSetS0, None, Some exampleSetS2] \<and>
   (\<exists>out. bindBindingSets exampleExternals exampleCapacities (\<lambda>p. None) eGraphics 9
        [Some exampleSetS0, Some exampleSetS2] [0, 0xFFFFFFFF, 1] = Inr out \<and>
      map (\<lambda>c. (firstSet c, boundSets c)) (bindCalls out) = [(0, [100]), (2, [102])] \<and>
      length (filter (\<lambda>c. firstSet c = 0 \<and> length (boundSets c) = 1) (bindCalls out)) = 1 \<and>
      length (filter (\<lambda>c. firstSet c = 2 \<and> length (boundSets c) = 1) (bindCalls out)) = 1)"
proof -
  define hs where "hs = [Some exampleSetS0, None, Some exampleSetS2]"
  define result where "result = \<lparr>descriptorSets = [], nextDescriptorSetToBind = 2,
          dynamicOffsets = [],
          bindCalls =
            [\<lparr>callBindPoint = eGraphics, callLayout = 9, firstSet = 0, boundSets = [100],
              boundDynamicOffsets = []\<rparr>,
             \<lparr>callBindPoint = eGraphics, callLayout = 9, firstSet = 2, boundSets = [102],
              boundDynamicOffsets = []\<rparr>],
          errors = [], referencedResources = [exampleSetS0]\<rparr>"
  have r0: "maximalRun hs 0 1" by (simp add: maximalRun_def hs_def)
  have r2: "maximalRun hs 2 1" by (simp add: maximalRun_def hs_def)
  have fit: "\<forall>h\<in>set hs. \<forall>cb\<in>set (volatileBuffersOf h). offsetFits (\<lambda>p. None) cb"
    by (simp add: hs_def example_buffers)
  have room: "withinCapacity exampleCapacities hs"
    by (simp add: withinCapacity_def hs_def example_buffers exampleCapacities_def)
  have m: "map (\<lambda>c. (firstSet c, length (boundSets c))) (bindCalls result) = [(0, 1), (2, 1)]"
    "map (\<lambda>c. (firstSet c, boundSets c)) (bindCalls result) = [(0, [100]), (2, [102])]"
    by (simp_all add: result_def)

  have p1: "positionHandles [Some exampleSetS0, None, Some exampleSetS2] [] = hs"
    unfolding hs_def by (rule example_positions(1))
  have ir1: "indexMapInRange [Some exampleSetS0, None, Some exampleSetS2] []"
    by (simp add: indexMapInRange_def)
  note t1 = bind_calls_are_maximal_runs [of "[Some exampleSetS0, None, Some exampleSetS2]" "[]"
      "\<lambda>p. None" exampleCapacities exampleExternals eGraphics 9, unfolded p1]
  from t1 [THEN conjunct1] ir1 fit room
  obtain out1 where run1: "bindBindingSets exampleExternals exampleCapacities (\<lambda>p. None)
      eGraphics 9 [Some exampleSetS0, None, Some exampleSetS2] [] = Inr out1" by blast
  with example_direct_run have o1: "out1 = result" by (simp add: result_def)
  from t1 [THEN conjunct2] run1
  have one1: "\<And>f len. maximalRun hs f len \<Longrightarrow>
      length (filter (\<lambda>c. firstSet c = f \<and> length (boundSets c) = len) (bindCalls out1)) = 1"
    by blast

  have p2: "positionHandles [Some exampleSetS0, Some exampleSetS2] [0, 0xFFFFFFFF, 1] = hs"
    unfolding hs_def by (rule example_positions(2))
  have ir2: "indexMapInRange [Some exampleSetS0, Some exampleSetS2] [0, 0xFFFFFFFF, 1]"
    by (simp add: indexMapInRange_def)
  note t2 = bind_calls_are_maximal_runs [of "[Some exampleSetS0, Some exampleSetS2]"
      "[0, 0xFFFFFFFF, 1]" "\<lambda>p. None" exampleCapacities exampleExternals eGraphics 9,
      unfolded p2]
  from t2 [THEN conjunct1] ir2 fit room
  obtain out2 where run2: "bindBindingSets exampleExternals exampleCapacities (\<lambda>p. None)
      eGraphics 9 [Some exampleSetS0, Some exampleSetS2] [0, 0xFFFFFFFF, 1] = Inr out2" by blast
  with example_mapped_run have o2: "out2 = result" by (simp add: result_def)
  from t2 [THEN conjunct2] run2
  have one2: "\<And>f len. maximalRun hs f len \<Longrightarrow>
      length (filter (\<lambda>c. firstSet c = f \<and> length (boundSets c) = len) (bindCalls out2)) = 1"
    by blast

  note facts = ir1 room [folded p1] p1 [unfolded hs_def] r0 [unfolded hs_def] r2 [unfolded hs_def]
    run1 m(1) [folded o1] one1 [OF r0] one1 [OF r2]
    ir2 room [folded p2] p2 [unfolded hs_def]
    run2 m(2) [folded o2] one2 [OF r0] one2 [OF r2]
  show ?thesis
    by (intro conjI exI [of _ out1] exI [of _ out2]) (rule facts)+
qed

text \<open>
  For a buffer whose byte size is below \<open>2\<^sup>3\<^sup>2\<close> the 64-bit product cannot wrap, and the
  appended offset is the product of the two numbers.
\<close>

lemma claimedOffset_exact:
  assumes w: "states (fst cb) = Some found"
    and c: "claimedOffset states cb off"
    and sz: "unat (bufferByteSize (bufferDesc (snd cb))) < 2 ^ 32"
  shows "unat off = unat (latestVersion found) * unat (bufferByteSize (bufferDesc (snd cb)))"
proof -
  from c w have e: "(ucast off :: u64) =
      ucast (latestVersion found) * bufferByteSize (bufferDesc (snd cb))"
    by (simp add: claimedOffset_def)
  have up: "unat (ucast x :: u64) = unat x" for x :: u32
  proof -
    have "unat x < 2 ^ 32" using unsigned_less [of x] by simp
    then have "unat x < 2 ^ 64" by simp
    then show ?thesis by (simp add: unsigned_ucast_eq take_bit_nat_eq_self)
  qed
  have v: "unat (latestVersion found) < 2 ^ 32"
    using unsigned_less [of "latestVersion found"] by simp
  have "unat (latestVersion found) * unat (bufferByteSize (bufferDesc (snd cb))) < 2 ^ 32 * 2 ^ 32"
    using v sz by (rule mult_strict_mono') simp_all
  then have "unat (latestVersion found) * unat (bufferByteSize (bufferDesc (snd cb))) < 2 ^ 64"
    by simp
  then have "unat ((ucast (latestVersion found) :: u64) * bufferByteSize (bufferDesc (snd cb))) =
      unat (latestVersion found) * unat (bufferByteSize (bufferDesc (snd cb)))"
    by (simp add: unat_word_ariths up)
  with e up [of off] show ?thesis by simp
qed

text \<open>
  C5. During bindBindingSets, for each volatile constant buffer referenced by a bound
  binding set: without a recorded write in the volatile-buffer state, a diagnostic is
  reported and dynamic offset 0 is appended; otherwise the appended dynamic offset equals
  the buffer's latest version multiplied by the buffer's byte size (in 64 bits, and
  asserted to fit the 32-bit offset); the offsets are appended in buffer-declaration order
  into the bind call that binds the set. The bound sets are those of the positions of the
  specification (the vector itself, or the elements the index map names). The call
  completes whenever the index map stays within the vector, the offsets pass the
  assertion and the positions and volatile constant buffers fit the capacities of the
  vectors of descriptor sets and dynamic offsets.
\<close>

theorem volatile_dynamic_offsets:
  "(indexMapInRange bs im \<and>
    (\<forall>h\<in>set (positionHandles bs im). \<forall>cb\<in>set (volatileBuffersOf h). offsetFits states cb) \<and>
    withinCapacity cap (positionHandles bs im) \<longrightarrow>
      (\<exists>out. bindBindingSets ext cap states bp pl bs im = Inr out)) \<and>
   (\<forall>out. bindBindingSets ext cap states bp pl bs im = Inr out \<longrightarrow>
      (\<forall>c\<in>set (bindCalls out).
         boundSets c = concat (map nativeSetOf
           (segment (positionHandles bs im) (firstSet c) (firstSet c + length (boundSets c)))) \<and>
         list_all2 (claimedOffset states)
           (concat (map volatileBuffersOf
              (segment (positionHandles bs im) (firstSet c) (firstSet c + length (boundSets c)))))
           (boundDynamicOffsets c)) \<and>
      errors out =
        map (unwrittenMessage ext)
          (filter (unwritten states) (concat (map volatileBuffersOf (positionHandles bs im)))))"
proof (intro conjI allI impI ballI)
  assume "indexMapInRange bs im \<and>
    (\<forall>h\<in>set (positionHandles bs im). \<forall>cb\<in>set (volatileBuffersOf h). offsetFits states cb) \<and>
    withinCapacity cap (positionHandles bs im)"
  then show "\<exists>out. bindBindingSets ext cap states bp pl bs im = Inr out"
    using bindBindingSets_completes by blast
next
  fix out c assume run: "bindBindingSets ext cap states bp pl bs im = Inr out"
    and c: "c \<in> set (bindCalls out)"
  from bindBindingSets_run(1) [OF run c]
  show "boundSets c = concat (map nativeSetOf
       (segment (positionHandles bs im) (firstSet c) (firstSet c + length (boundSets c))))"
    "list_all2 (claimedOffset states)
       (concat (map volatileBuffersOf
          (segment (positionHandles bs im) (firstSet c) (firstSet c + length (boundSets c)))))
       (boundDynamicOffsets c)"
    by (simp_all add: callOfRun_def)
next
  fix out assume run: "bindBindingSets ext cap states bp pl bs im = Inr out"
  show "errors out =
        map (unwrittenMessage ext)
          (filter (unwritten states) (concat (map volatileBuffersOf (positionHandles bs im))))"
    by (rule bindBindingSets_run(4) [OF run])
qed

lemma example_volatile_run:
  "bindBindingSets exampleExternals exampleCapacities exampleVolatileStates eCompute 9
       [Some exampleSetS1] [] =
     Inr \<lparr>descriptorSets = [], nextDescriptorSetToBind = 0, dynamicOffsets = [],
          bindCalls =
            [\<lparr>callBindPoint = eCompute, callLayout = 9, firstSet = 0, boundSets = [101],
              boundDynamicOffsets = [768, 0]\<rparr>],
          errors = [''Binding volatile constant buffer B before writing into it is invalid.''],
          referencedResources = []\<rparr>"
  by (simp add: bindBindingSets_def numDescriptorSets_def bindStep_def resolveHandle_def
      bindHandle_def bindR_def flushDescriptorSets_def exampleSetS1_def exampleVolatileA_def
      exampleVolatileB_def exampleVolatileStates_def unwrittenMessage_def exampleExternals_def
      exampleCapacities_def Let_def)

lemma example_volatile_mapped_run:
  "bindBindingSets exampleExternals exampleCapacities exampleVolatileStates eCompute 9
       [Some exampleSetS1, Some exampleSetS0] [1, 0xFFFFFFFF, 0] =
     Inr \<lparr>descriptorSets = [], nextDescriptorSetToBind = 2, dynamicOffsets = [],
          bindCalls =
            [\<lparr>callBindPoint = eCompute, callLayout = 9, firstSet = 0, boundSets = [100],
              boundDynamicOffsets = []\<rparr>,
             \<lparr>callBindPoint = eCompute, callLayout = 9, firstSet = 2, boundSets = [101],
              boundDynamicOffsets = [768, 0]\<rparr>],
          errors = [''Binding volatile constant buffer B before writing into it is invalid.''],
          referencedResources = [exampleSetS0]\<rparr>"
  by (simp add: bindBindingSets_def numDescriptorSets_def bindStep_def resolveHandle_def
      bindHandle_def bindR_def flushDescriptorSets_def exampleSetS0_def exampleSetS1_def
      exampleVolatileA_def exampleVolatileB_def exampleVolatileStates_def unwrittenMessage_def
      exampleExternals_def exampleCapacities_def Let_def)

theorem volatile_dynamic_offsets_witness:
  "indexMapInRange [Some exampleSetS1] [] \<and>
   withinCapacity exampleCapacities (positionHandles [Some exampleSetS1] []) \<and>
   offsetFits exampleVolatileStates exampleVolatileA \<and>
   offsetFits exampleVolatileStates exampleVolatileB \<and>
   claimedOffset exampleVolatileStates exampleVolatileA 768 \<and>
   claimedOffset exampleVolatileStates exampleVolatileB 0 \<and>
   (\<exists>out. bindBindingSets exampleExternals exampleCapacities exampleVolatileStates eCompute 9
        [Some exampleSetS1] [] = Inr out \<and>
      map boundDynamicOffsets (bindCalls out) = [[768, 0]] \<and>
      errors out = [''Binding volatile constant buffer B before writing into it is invalid.'']) \<and>
   indexMapInRange [Some exampleSetS1, Some exampleSetS0] [1, 0xFFFFFFFF, 0] \<and>
   withinCapacity exampleCapacities
     (positionHandles [Some exampleSetS1, Some exampleSetS0] [1, 0xFFFFFFFF, 0]) \<and>
   positionHandles [Some exampleSetS1, Some exampleSetS0] [1, 0xFFFFFFFF, 0] =
     [Some exampleSetS0, None, Some exampleSetS1] \<and>
   (\<exists>out. bindBindingSets exampleExternals exampleCapacities exampleVolatileStates eCompute 9
        [Some exampleSetS1, Some exampleSetS0] [1, 0xFFFFFFFF, 0] = Inr out \<and>
      map (\<lambda>c. (firstSet c, boundSets c, boundDynamicOffsets c)) (bindCalls out) =
        [(0, [100], []), (2, [101], [768, 0])] \<and>
      errors out = [''Binding volatile constant buffer B before writing into it is invalid.''])"
proof -
  have fits: "offsetFits exampleVolatileStates exampleVolatileA"
    "offsetFits exampleVolatileStates exampleVolatileB"
    by (simp_all add: offsetFits_def exampleVolatileStates_def exampleVolatileA_def
        exampleVolatileB_def)
  have cl: "claimedOffset exampleVolatileStates exampleVolatileA 768"
    "claimedOffset exampleVolatileStates exampleVolatileB 0"
    by (simp_all add: claimedOffset_def exampleVolatileStates_def exampleVolatileA_def
        exampleVolatileB_def)
  have msg: "map (unwrittenMessage exampleExternals)
      (filter (unwritten exampleVolatileStates) [exampleVolatileA, exampleVolatileB]) =
      [''Binding volatile constant buffer B before writing into it is invalid.'']"
    by (simp add: unwritten_def exampleVolatileStates_def exampleVolatileA_def
        exampleVolatileB_def unwrittenMessage_def exampleExternals_def)

  define hs1 where "hs1 = [Some exampleSetS1]"
  have p1: "positionHandles [Some exampleSetS1] [] = hs1"
    unfolding hs1_def by (rule example_positions(3))
  have ir1: "indexMapInRange [Some exampleSetS1] []"
    by (simp add: indexMapInRange_def)
  have fit1: "\<forall>h\<in>set hs1. \<forall>cb\<in>set (volatileBuffersOf h). offsetFits exampleVolatileStates cb"
    by (simp add: hs1_def example_buffers fits)
  have room1: "withinCapacity exampleCapacities hs1"
    by (simp add: withinCapacity_def hs1_def example_buffers exampleCapacities_def)
  note t1 = volatile_dynamic_offsets [of "[Some exampleSetS1]" "[]" exampleVolatileStates
      exampleCapacities exampleExternals eCompute 9, unfolded p1]
  from t1 [THEN conjunct1] ir1 fit1 room1
  obtain out1 where run1: "bindBindingSets exampleExternals exampleCapacities
      exampleVolatileStates eCompute 9 [Some exampleSetS1] [] = Inr out1" by blast
  from t1 [THEN conjunct2] run1
  have "errors out1 = map (unwrittenMessage exampleExternals)
      (filter (unwritten exampleVolatileStates) (concat (map volatileBuffersOf hs1)))"
    by blast
  moreover have "concat (map volatileBuffersOf hs1) = [exampleVolatileA, exampleVolatileB]"
    by (simp add: hs1_def example_buffers)
  ultimately have e1: "errors out1 =
      [''Binding volatile constant buffer B before writing into it is invalid.'']"
    by (simp only: msg)
  from run1 example_volatile_run
  have o1: "map boundDynamicOffsets (bindCalls out1) = [[768, 0]]" by auto

  define hs2 where "hs2 = [Some exampleSetS0, None, Some exampleSetS1]"
  have p2: "positionHandles [Some exampleSetS1, Some exampleSetS0] [1, 0xFFFFFFFF, 0] = hs2"
    unfolding hs2_def by (rule example_positions(4))
  have ir2: "indexMapInRange [Some exampleSetS1, Some exampleSetS0] [1, 0xFFFFFFFF, 0]"
    by (simp add: indexMapInRange_def)
  have fit2: "\<forall>h\<in>set hs2. \<forall>cb\<in>set (volatileBuffersOf h). offsetFits exampleVolatileStates cb"
    by (simp add: hs2_def example_buffers fits)
  have room2: "withinCapacity exampleCapacities hs2"
    by (simp add: withinCapacity_def hs2_def example_buffers exampleCapacities_def)
  note t2 = volatile_dynamic_offsets [of "[Some exampleSetS1, Some exampleSetS0]"
      "[1, 0xFFFFFFFF, 0]" exampleVolatileStates exampleCapacities exampleExternals eCompute 9,
      unfolded p2]
  from t2 [THEN conjunct1] ir2 fit2 room2
  obtain out2 where run2: "bindBindingSets exampleExternals exampleCapacities
      exampleVolatileStates eCompute 9 [Some exampleSetS1, Some exampleSetS0]
      [1, 0xFFFFFFFF, 0] = Inr out2" by blast
  from t2 [THEN conjunct2] run2
  have "errors out2 = map (unwrittenMessage exampleExternals)
      (filter (unwritten exampleVolatileStates) (concat (map volatileBuffersOf hs2)))"
    by blast
  moreover have "concat (map volatileBuffersOf hs2) = [exampleVolatileA, exampleVolatileB]"
    by (simp add: hs2_def example_buffers)
  ultimately have e2: "errors out2 =
      [''Binding volatile constant buffer B before writing into it is invalid.'']"
    by (simp only: msg)
  from run2 example_volatile_mapped_run
  have o2: "map (\<lambda>c. (firstSet c, boundSets c, boundDynamicOffsets c)) (bindCalls out2) =
        [(0, [100], []), (2, [101], [768, 0])]" by auto

  note facts = ir1 room1 [folded p1] fits cl run1 o1 e1
    ir2 room2 [folded p2] p2 [unfolded hs2_def] run2 o2 e2
  show ?thesis
    by (intro conjI exI [of _ out1] exI [of _ out2]) (rule facts)+
qed

end
